theory Spec2Isabelle
  imports Main "HOL-Library.Word"
begin

unbundle bit_operations_syntax

section \<open>The ledger contract \<open>HDGLLatticeContract\<close>\<close>

subsection \<open>Data model\<close>

type_synonym uint256 = "256 word"
type_synonym bytes32 = "256 word"
type_synonym address = "160 word"
type_synonym byte = "8 word"

text \<open>
  The three structs of the contract. Field names are the source's; a prefix is added only
  where two structs share a field name (\<open>timestamp\<close> occurs in all three).
\<close>

record LatticeState =
  evolutionCount :: uint256
  phaseVariance :: uint256
  stateHash :: bytes32
  timestamp :: uint256
  consensusLocked :: bool

record LatticeScript =
  scriptHash :: string
  scriptContent :: string
  submitter :: address
  executionCount :: uint256
  latticeEffect :: uint256
  scriptTimestamp :: uint256
  verified :: bool

record Commitment =
  commitmentHash :: bytes32
  blockHeight :: uint256
  validator :: address
  commitmentTimestamp :: uint256
  confirmed :: bool

datatype event =
    StateUpdate uint256 uint256 bytes32
  | ScriptExecuted string address uint256
  | CommitmentMade bytes32 address uint256
  | ConsensusAchieved bytes32 uint256
  | ValidatorAuthorized address

text \<open>
  The storage of the contract. A Solidity mapping is total: a key never written reads as
  the all-zero value, so the three mappings are total functions. The log of emitted events
  is part of the state, since a revert discards the events of the call as well.
\<close>

record contract =
  currentState :: LatticeState
  latticeScripts :: "string \<Rightarrow> LatticeScript"
  commitments :: "bytes32 \<Rightarrow> Commitment"
  authorizedValidators :: "address \<Rightarrow> bool"
  scriptHashes :: "string list"
  commitmentHashes :: "bytes32 list"
  events :: "event list"

text \<open>What a call reads of its transaction and block: \<open>msg.sender\<close> and the \<open>block.*\<close> values.\<close>

record env =
  sender :: address
  block_timestamp :: uint256
  block_number :: uint256
  block_difficulty :: uint256

text \<open>
  A failed \<open>require\<close> reverts with its message; an overflow of checked arithmetic
  (the pragma is \<open>^0.8.0\<close>) reverts with a panic.
\<close>

datatype error = Revert string | Panic

subsection \<open>Checked arithmetic and encodings\<close>

definition checked_add :: "uint256 \<Rightarrow> uint256 \<Rightarrow> error + uint256" where
  "checked_add a b = (if unat a + unat b < 2 ^ 256 then Inr (a + b) else Inl Panic)"

definition checked_mul :: "uint256 \<Rightarrow> uint256 \<Rightarrow> error + uint256" where
  "checked_mul a b = (if unat a * unat b < 2 ^ 256 then Inr (a * b) else Inl Panic)"

text \<open>\<open>data[i]\<close> of a \<open>bytes32\<close>: byte 0 is the most significant one.\<close>

definition byte_at :: "bytes32 \<Rightarrow> nat \<Rightarrow> byte" where
  "byte_at d i = ucast (drop_bit (8 * (31 - i)) d)"

text \<open>\<open>abi.encodePacked\<close> of a \<open>uint256\<close> is its 32 bytes, big-endian; of a string, its bytes.\<close>

definition encode_uint256 :: "uint256 \<Rightarrow> byte list" where
  "encode_uint256 w = map (byte_at w) [0..<32]"

definition encode_string :: "string \<Rightarrow> byte list" where
  "encode_string s = map of_char s"

definition alphabet :: string where
  "alphabet = ''0123456789abcdef''"

text \<open>The loop of \<open>toHexString\<close>, writing two characters of the 64-byte buffer per round.\<close>

function toHexString_loop :: "bytes32 \<Rightarrow> nat \<Rightarrow> string \<Rightarrow> string" where
  "toHexString_loop d i str =
     (if i < 32
      then toHexString_loop d (i + 1)
             (str[i * 2 := alphabet ! unat (drop_bit 4 (byte_at d i)),
                  1 + i * 2 := alphabet ! unat (byte_at d i AND 0x0f)])
      else str)"
  by pat_completeness auto
termination
  by (relation "measure (\<lambda>(d, i, str). 32 - i)") auto

definition toHexString :: "bytes32 \<Rightarrow> string" where
  "toHexString d = toHexString_loop d 0 (replicate 64 (CHR 0x00))"

subsection \<open>The contract's functions\<close>

text \<open>
  \<open>keccak256\<close> is a primitive of the platform, not code of the contract: every function
  that hashes takes it as the parameter \<open>H\<close>.
\<close>

type_synonym keccak = "byte list \<Rightarrow> bytes32"

definition genesisState :: "keccak \<Rightarrow> env \<Rightarrow> LatticeState" where
  "genesisState H e =
     \<lparr> evolutionCount = 0,
       phaseVariance = 1123580,
       stateHash = H (encode_string ''genesis''),
       timestamp = block_timestamp e,
       consensusLocked = False \<rparr>"

definition emptyScript :: LatticeScript where
  "emptyScript =
     \<lparr> scriptHash = [], scriptContent = [], submitter = 0, executionCount = 0,
       latticeEffect = 0, scriptTimestamp = 0, verified = False \<rparr>"

definition emptyCommitment :: Commitment where
  "emptyCommitment =
     \<lparr> commitmentHash = 0, blockHeight = 0, validator = 0, commitmentTimestamp = 0,
       confirmed = False \<rparr>"

definition constructor :: "keccak \<Rightarrow> env \<Rightarrow> contract" where
  "constructor H e =
     \<lparr> currentState = genesisState H e,
       latticeScripts = (\<lambda>_. emptyScript),
       commitments = (\<lambda>_. emptyCommitment),
       authorizedValidators = (\<lambda>a. a = sender e),
       scriptHashes = [],
       commitmentHashes = [],
       events = [ValidatorAuthorized (sender e)] \<rparr>"

definition emit :: "event \<Rightarrow> contract \<Rightarrow> contract" where
  "emit ev c = c\<lparr>events := events c @ [ev]\<rparr>"

definition onlyAuthorized ::
  "env \<Rightarrow> contract \<Rightarrow> (contract \<Rightarrow> error + contract) \<Rightarrow> error + contract" where
  "onlyAuthorized e c body =
     (if authorizedValidators c (sender e) then body c
      else Inl (Revert ''Not authorized validator''))"

definition authorizeValidator :: "env \<Rightarrow> address \<Rightarrow> contract \<Rightarrow> error + contract" where
  "authorizeValidator e v c =
     onlyAuthorized e c (\<lambda>c.
       Inr (emit (ValidatorAuthorized v)
              (c\<lparr>authorizedValidators := (authorizedValidators c)(v := True)\<rparr>)))"

definition goldenRatio :: uint256 where
  "goldenRatio = 1618034"

definition updateLatticeState :: "keccak \<Rightarrow> env \<Rightarrow> uint256 \<Rightarrow> contract \<Rightarrow> error + contract" where
  "updateLatticeState H e effect c =
     (case checked_add (evolutionCount (currentState c)) 1 of
        Inl err \<Rightarrow> Inl err
      | Inr ec \<Rightarrow>
     (case checked_mul effect goldenRatio of
        Inl err \<Rightarrow> Inl err
      | Inr p \<Rightarrow>
     (let varianceChange = p div 1000000 in
      case checked_add (phaseVariance (currentState c)) varianceChange of
        Inl err \<Rightarrow> Inl err
      | Inr sm \<Rightarrow>
     (let pv = sm mod 2000000;
          h = H (encode_uint256 ec @ encode_uint256 pv @
                 encode_uint256 (block_timestamp e) @ encode_uint256 (block_difficulty e))
      in Inr (emit (StateUpdate ec pv h)
               (c\<lparr>currentState :=
                   \<lparr> evolutionCount = ec, phaseVariance = pv, stateHash = h,
                     timestamp = block_timestamp e, consensusLocked = False \<rparr>\<rparr>))))))"

definition hashOfScript :: "keccak \<Rightarrow> string \<Rightarrow> string" where
  "hashOfScript H content = toHexString (H (encode_string content))"

definition executeLatticeScript ::
  "keccak \<Rightarrow> env \<Rightarrow> string \<Rightarrow> uint256 \<Rightarrow> contract \<Rightarrow> error + (string \<times> contract)" where
  "executeLatticeScript H e content effect c =
     (let sh = hashOfScript H content;
          old = latticeScripts c sh;
          stored =
            (if length (scriptHash old) = 0
             then Inr (c\<lparr>latticeScripts := (latticeScripts c)(sh :=
                           \<lparr> scriptHash = sh, scriptContent = content, submitter = sender e,
                             executionCount = 1, latticeEffect = effect,
                             scriptTimestamp = block_timestamp e, verified = False \<rparr>),
                         scriptHashes := scriptHashes c @ [sh]\<rparr>)
             else (case checked_add (executionCount old) 1 of
                     Inl err \<Rightarrow> Inl err
                   | Inr n \<Rightarrow>
                       Inr (c\<lparr>latticeScripts := (latticeScripts c)(sh :=
                               old\<lparr>executionCount := n, latticeEffect := effect,
                                   scriptTimestamp := block_timestamp e\<rparr>)\<rparr>)))
      in case stored of
           Inl err \<Rightarrow> Inl err
         | Inr c1 \<Rightarrow>
             (case updateLatticeState H e effect (emit (ScriptExecuted sh (sender e) effect) c1) of
                Inl err \<Rightarrow> Inl err
              | Inr c2 \<Rightarrow> Inr (sh, c2)))"

definition makeCommitment :: "env \<Rightarrow> bytes32 \<Rightarrow> contract \<Rightarrow> error + contract" where
  "makeCommitment e h c =
     onlyAuthorized e c (\<lambda>c.
       if validator (commitments c h) \<noteq> 0 then Inl (Revert ''Commitment already exists'')
       else Inr (emit (CommitmentMade h (sender e) (block_number e))
                  (c\<lparr>commitments := (commitments c)(h :=
                        \<lparr> commitmentHash = h, blockHeight = block_number e,
                          validator = sender e, commitmentTimestamp = block_timestamp e,
                          confirmed = False \<rparr>),
                      commitmentHashes := commitmentHashes c @ [h]\<rparr>)))"

definition confirmCommitment :: "env \<Rightarrow> bytes32 \<Rightarrow> contract \<Rightarrow> error + contract" where
  "confirmCommitment e h c =
     onlyAuthorized e c (\<lambda>c.
       if validator (commitments c h) = 0 then Inl (Revert ''Commitment does not exist'')
       else if confirmed (commitments c h) then Inl (Revert ''Already confirmed'')
       else
         (let c1 = c\<lparr>commitments := (commitments c)(h := (commitments c h)\<lparr>confirmed := True\<rparr>)\<rparr>
          in if \<not> consensusLocked (currentState c1)
             then Inr (emit (ConsensusAchieved (stateHash (currentState c1)) (block_timestamp e))
                        (c1\<lparr>currentState := (currentState c1)\<lparr>consensusLocked := True\<rparr>\<rparr>))
             else Inr c1))"

definition emergencyPause :: "env \<Rightarrow> contract \<Rightarrow> error + contract" where
  "emergencyPause e c = onlyAuthorized e c (\<lambda>c. Inr c)"

definition getScriptCount :: "contract \<Rightarrow> nat" where
  "getScriptCount c = length (scriptHashes c)"

definition getCommitmentCount :: "contract \<Rightarrow> nat" where
  "getCommitmentCount c = length (commitmentHashes c)"

text \<open>
  The external interface as one datatype of calls, and a transaction: the state after a
  call is the new state if the call returns and the old state if it reverts.
\<close>

datatype call =
    AuthorizeValidator address
  | ExecuteLatticeScript string uint256
  | MakeCommitment bytes32
  | ConfirmCommitment bytes32
  | EmergencyPause

fun exec :: "keccak \<Rightarrow> env \<Rightarrow> call \<Rightarrow> contract \<Rightarrow> error + contract" where
  "exec H e (AuthorizeValidator v) c = authorizeValidator e v c"
| "exec H e (ExecuteLatticeScript content effect) c =
     map_sum id snd (executeLatticeScript H e content effect c)"
| "exec H e (MakeCommitment h) c = makeCommitment e h c"
| "exec H e (ConfirmCommitment h) c = confirmCommitment e h c"
| "exec H e EmergencyPause c = emergencyPause e c"

definition transact :: "keccak \<Rightarrow> env \<Rightarrow> call \<Rightarrow> contract \<Rightarrow> contract" where
  "transact H e cl c = (case exec H e cl c of Inl err \<Rightarrow> c | Inr c' \<Rightarrow> c')"

text \<open>The states the contract can be in: deployed, then any calls by any senders.\<close>

inductive reachable :: "keccak \<Rightarrow> contract \<Rightarrow> bool" for H :: keccak where
  deployed: "reachable H (constructor H e)"
| called: "reachable H c \<Longrightarrow> reachable H (transact H e cl c)"

text \<open>
  A sequence of transactions run from a state, and the scripts a sequence submits: the
  contents of its script executions that return, in the order of the calls.
\<close>

fun run :: "keccak \<Rightarrow> (env \<times> call) list \<Rightarrow> contract \<Rightarrow> contract" where
  "run H [] c = c"
| "run H ((e, cl) # txs) c = run H txs (transact H e cl c)"

fun submits :: "keccak \<Rightarrow> env \<Rightarrow> call \<Rightarrow> contract \<Rightarrow> string list" where
  "submits H e (ExecuteLatticeScript content effect) c =
     (case executeLatticeScript H e content effect c of Inl err \<Rightarrow> [] | Inr r \<Rightarrow> [content])"
| "submits H e cl c = []"

fun submitted :: "keccak \<Rightarrow> (env \<times> call) list \<Rightarrow> contract \<Rightarrow> string list" where
  "submitted H [] c = []"
| "submitted H ((e, cl) # txs) c = submits H e cl c @ submitted H txs (transact H e cl c)"

section \<open>The two Node servers\<close>

subsection \<open>JavaScript values and the file system\<close>

text \<open>
  The values \<open>JSON.parse\<close> can return. An array carries, besides its elements, the named
  properties assigned to it later; an object is the list of its properties in insertion
  order. Numbers are not inspected by the code modelled here; \<open>Date.now()\<close> is integral.
\<close>

datatype jsval =
    JNull
  | JBool bool
  | JNum int
  | JStr string
  | JArr "jsval list" "(string \<times> jsval) list"
  | JObj "(string \<times> jsval) list"

datatype js_error = TypeError

text \<open>The files, by path; \<open>None\<close> is a file that does not exist.\<close>

type_synonym files = "string \<Rightarrow> string option"

text \<open>
  \<open>JSON.parse\<close> and \<open>JSON.stringify\<close> are primitives of the runtime and are taken as
  parameters; \<open>None\<close> from the parser is the \<open>SyntaxError\<close> it throws.
\<close>

type_synonym json_parse = "string \<Rightarrow> jsval option"
type_synonym json_stringify = "jsval \<Rightarrow> string"

text \<open>The truthiness an \<open>if (x)\<close> tests.\<close>

fun truthy :: "jsval \<Rightarrow> bool" where
  "truthy JNull = False"
| "truthy (JBool b) = b"
| "truthy (JNum n) = (n \<noteq> 0)"
| "truthy (JStr s) = (s \<noteq> [])"
| "truthy (JArr xs ps) = True"
| "truthy (JObj ps) = True"

text \<open>\<open>o[k] = v\<close> on the property list: an existing key keeps its place, a new one is appended.\<close>

definition set_prop :: "string \<Rightarrow> jsval \<Rightarrow> (string \<times> jsval) list \<Rightarrow> (string \<times> jsval) list" where
  "set_prop k v ps =
     (if k \<in> fst ` set ps then map (\<lambda>(k', v'). if k' = k then (k', v) else (k', v')) ps
      else ps @ [(k, v)])"

text \<open>
  The assignment \<open>x.timestamp = v\<close>: it throws on \<open>null\<close>, is silently dropped on a
  primitive (the files are not in strict mode) and sets the property on an object or array.
\<close>

fun assign_timestamp :: "jsval \<Rightarrow> jsval \<Rightarrow> js_error + jsval" where
  "assign_timestamp JNull v = Inl TypeError"
| "assign_timestamp (JObj ps) v = Inr (JObj (set_prop ''timestamp'' v ps))"
| "assign_timestamp (JArr xs ps) v = Inr (JArr xs (set_prop ''timestamp'' v ps))"
| "assign_timestamp x v = Inr x"

subsection \<open>\<open>stats_server.js\<close>\<close>

definition MAX_HISTORY :: nat where
  "MAX_HISTORY = 1000"

definition getHDGLMetrics :: "json_parse \<Rightarrow> files \<Rightarrow> jsval" where
  "getHDGLMetrics parse fs =
     (case fs ''/app/data/metrics.json'' of
        None \<Rightarrow> JObj []
      | Some data \<Rightarrow> (case parse data of None \<Rightarrow> JObj [] | Some v \<Rightarrow> v))"

text \<open>
  One run of the \<open>setInterval\<close> callback on the history: the files and the clock are
  what the callback reads. An exception leaves the callback before the push.
\<close>

definition update_tick :: "json_parse \<Rightarrow> files \<times> int \<Rightarrow> jsval list \<Rightarrow> js_error + jsval list" where
  "update_tick parse inp metricsHistory =
     (case assign_timestamp (getHDGLMetrics parse (fst inp)) (JNum (snd inp)) of
        Inl err \<Rightarrow> Inl err
      | Inr metrics \<Rightarrow>
          (let pushed = metricsHistory @ [metrics]
           in Inr (if length pushed > MAX_HISTORY then tl pushed else pushed)))"

text \<open>The callback run once per second, each time on what it finds; the first exception ends the run.\<close>

fun update_ticks :: "json_parse \<Rightarrow> (files \<times> int) list \<Rightarrow> jsval list \<Rightarrow> js_error + jsval list" where
  "update_ticks parse [] h = Inr h"
| "update_ticks parse (inp # inps) h =
     (case update_tick parse inp h of Inl err \<Rightarrow> Inl err | Inr h' \<Rightarrow> update_ticks parse inps h')"

text \<open>The entries the ticks record, in order: one per tick.\<close>

fun recorded :: "json_parse \<Rightarrow> (files \<times> int) list \<Rightarrow> js_error + jsval list" where
  "recorded parse [] = Inr []"
| "recorded parse (inp # inps) =
     (case assign_timestamp (getHDGLMetrics parse (fst inp)) (JNum (snd inp)) of
        Inl err \<Rightarrow> Inl err
      | Inr m \<Rightarrow> (case recorded parse inps of Inl err \<Rightarrow> Inl err | Inr ms \<Rightarrow> Inr (m # ms)))"

subsection \<open>The visualizer server\<close>

definition statePath :: string where
  "statePath = ''/app/data/state.json''"

definition num_array :: "int list \<Rightarrow> jsval" where
  "num_array ns = JArr (map JNum ns) []"

definition defaultState :: jsval where
  "defaultState =
     JObj [(''dimensions'', num_array [1, 1, 1, 1, 1, 1, 1, 1]),
           (''phases'', num_array [0, 0, 0, 0, 0, 0, 0, 0]),
           (''tape'', num_array [0, 0, 0, 0, 0, 0, 0, 0]),
           (''timestamp'', JNum 0)]"

text \<open>
  \<open>readLatticeState\<close> returns the value read and the files as it leaves them. Both a
  missing file and a \<open>SyntaxError\<close> of the parser land in the \<open>catch\<close>, which writes the
  default state; \<open>write_ok\<close> says whether that \<open>writeFileSync\<close> succeeds.
\<close>

definition readLatticeState ::
  "json_parse \<Rightarrow> json_stringify \<Rightarrow> bool \<Rightarrow> files \<Rightarrow> jsval \<times> files" where
  "readLatticeState parse stringify write_ok fs =
     (let catch =
            (if write_ok then (defaultState, fs(statePath \<mapsto> stringify defaultState))
             else (JNull, fs))
      in case fs statePath of
           None \<Rightarrow> catch
         | Some data \<Rightarrow> (case parse data of None \<Rightarrow> catch | Some v \<Rightarrow> (v, fs)))"

datatype response = Json200 jsval | Error500 string

text \<open>The handler of \<open>GET /api/state\<close>: the response and the files afterwards.\<close>

definition api_state ::
  "json_parse \<Rightarrow> json_stringify \<Rightarrow> bool \<Rightarrow> files \<Rightarrow> response \<times> files" where
  "api_state parse stringify write_ok fs =
     (let (state, fs') = readLatticeState parse stringify write_ok fs
      in (if truthy state then Json200 state else Error500 ''Could not read state'', fs'))"

section \<open>Concrete inputs\<close>

text \<open>
  The inputs at which the theorems below are instantiated. \<open>stub_keccak\<close> stands in for
  the platform's hash there: the sum of the bytes, which is enough to tell apart the
  inputs used, and says nothing about \<open>keccak256\<close> itself. The universal theorems hold
  for every hash function.
\<close>

definition stub_keccak :: keccak where
  "stub_keccak bs = word_of_nat (sum_list (map unat bs))"

definition env_a :: env where
  "env_a = \<lparr> sender = 7, block_timestamp = 1000, block_number = 5, block_difficulty = 2 \<rparr>"

definition env_b :: env where
  "env_b = \<lparr> sender = 7, block_timestamp = 2000, block_number = 6, block_difficulty = 2 \<rparr>"

definition env_c :: env where
  "env_c = \<lparr> sender = 9, block_timestamp = 3000, block_number = 7, block_difficulty = 2 \<rparr>"

text \<open>The contract after deployment by 7, and after 7 has made and confirmed commitment 1.\<close>

definition deployed_a :: contract where
  "deployed_a = constructor stub_keccak env_a"

definition confirmed_a :: contract where
  "confirmed_a =
     transact stub_keccak env_a (ConfirmCommitment 1)
       (transact stub_keccak env_a (MakeCommitment 1) deployed_a)"

text \<open>
  The part of \<open>JSON.parse\<close> on the three literals; every other input used below is
  malformed JSON, which \<open>JSON.parse\<close> rejects as well.
\<close>

definition parse_literal :: json_parse where
  "parse_literal s =
     (if s = ''null'' then Some JNull
      else if s = ''true'' then Some (JBool True)
      else if s = ''false'' then Some (JBool False)
      else None)"

definition stringify_default :: json_stringify where
  "stringify_default v = (if v = defaultState then ''<default state>'' else [])"

section \<open>Auxiliary facts\<close>

lemma checked_add_val: "checked_add a b = Inr r \<Longrightarrow> r = a + b"
  by (auto simp: checked_add_def split: if_splits)

lemma checked_add_unat: "checked_add a b = Inr r \<Longrightarrow> unat r = unat a + unat b"
  by (auto simp: checked_add_def unat_word_ariths split: if_splits)

lemma checked_add_ok: "unat a + unat b < 2 ^ 256 \<Longrightarrow> checked_add a b = Inr (a + b)"
  by (simp add: checked_add_def)

lemma checked_mul_ok: "unat a * unat b < 2 ^ 256 \<Longrightarrow> checked_mul a b = Inr (a * b)"
  by (simp add: checked_mul_def)

lemma unat_goldenRatio: "unat goldenRatio = 1618034"
  by (simp add: goldenRatio_def)

lemma unat_varianceChange:
  assumes "unat effect * 1618034 < 2 ^ 256"
  shows "unat (effect * goldenRatio div 1000000) = unat effect * 1618034 div 1000000"
proof -
  have "unat (effect * goldenRatio) = unat effect * 1618034"
    using assms by (simp add: unat_word_ariths unat_goldenRatio)
  then show ?thesis by (simp add: unat_div)
qed

lemma length_toHexString_loop: "length (toHexString_loop d i str) = length str"
  by (induction d i str rule: toHexString_loop.induct) simp

lemma length_toHexString: "length (toHexString d) = 64"
  by (simp add: toHexString_def length_toHexString_loop)

lemma hashOfScript_nonempty: "hashOfScript H content \<noteq> []"
  using length_toHexString [of "H (encode_string content)"] by (auto simp: hashOfScript_def)

text \<open>The hexadecimal string determines the 32 bytes it encodes.\<close>

lemma toHexString_loop_keeps:
  "k < 2 * i \<Longrightarrow> toHexString_loop d i str ! k = str ! k"
proof (induction d i str rule: toHexString_loop.induct)
  case (1 d i str)
  show ?case
  proof (cases "i < 32")
    case True
    from "1.prems" have "k < 2 * (i + 1)" by simp
    from "1.IH" [OF True this] "1.prems" True show ?thesis by simp
  next
    case False
    then show ?thesis by simp
  qed
qed

lemma toHexString_loop_writes:
  "length str = 64 \<Longrightarrow> i \<le> j \<Longrightarrow> j < 32 \<Longrightarrow>
     toHexString_loop d i str ! (2 * j) = alphabet ! unat (drop_bit 4 (byte_at d j)) \<and>
     toHexString_loop d i str ! (2 * j + 1) = alphabet ! unat (byte_at d j AND 0x0f)"
proof (induction d i str rule: toHexString_loop.induct)
  case (1 d i str)
  from "1.prems" have lt: "i < 32" by simp
  define str' where "str' = str[i * 2 := alphabet ! unat (drop_bit 4 (byte_at d i)),
                  1 + i * 2 := alphabet ! unat (byte_at d i AND 0x0f)]"
  have step: "toHexString_loop d i str = toHexString_loop d (i + 1) str'"
    using lt by (simp add: str'_def)
  have len: "length str' = 64" using "1.prems"(1) by (simp add: str'_def)
  show ?case
  proof (cases "i = j")
    case True
    have "toHexString_loop d (i + 1) str' ! (2 * j) = str' ! (2 * j)"
      using True by (intro toHexString_loop_keeps) simp
    moreover have "toHexString_loop d (i + 1) str' ! (2 * j + 1) = str' ! (2 * j + 1)"
      using True by (intro toHexString_loop_keeps) simp
    moreover have "str' ! (2 * j) = alphabet ! unat (drop_bit 4 (byte_at d j))"
      using True "1.prems" by (simp add: str'_def mult.commute)
    moreover have "str' ! (2 * j + 1) = alphabet ! unat (byte_at d j AND 0x0f)"
      using True "1.prems" by (simp add: str'_def mult.commute)
    ultimately show ?thesis unfolding step by simp
  next
    case False
    with "1.prems" have "i + 1 \<le> j" by simp
    from "1.IH" [OF lt, folded str'_def, OF len this "1.prems"(3)]
    show ?thesis unfolding step .
  qed
qed

lemma toHexString_nth:
  assumes "j < 32"
  shows "toHexString d ! (2 * j) = alphabet ! unat (drop_bit 4 (byte_at d j))"
    and "toHexString d ! (2 * j + 1) = alphabet ! unat (byte_at d j AND 0x0f)"
  using toHexString_loop_writes [of "replicate 64 (CHR 0x00)" 0 j d] assms
  by (simp_all add: toHexString_def)

lemma distinct_alphabet: "distinct alphabet" and length_alphabet: "length alphabet = 16"
  by (simp_all add: alphabet_def)

lemma nibble_bounds:
  fixes b :: byte
  shows "unat (drop_bit 4 b) < 16" and "unat (b AND 0x0f) < 16"
proof -
  have "unat (drop_bit 4 b) = drop_bit 4 (unat b)" by (simp add: unat_drop_bit_eq)
  also have "\<dots> = unat b div 16" by (simp add: drop_bit_eq_div)
  finally have e: "unat (drop_bit 4 b) = unat b div 16" .
  have "unat b < 256" using unsigned_less [of b] by simp
  with e show "unat (drop_bit 4 b) < 16" by simp
  have "b AND 0x0f \<le> 0x0f" by (rule word_and_le1)
  then have "unat (b AND 0x0f) \<le> unat (0x0f :: byte)" by (simp only: word_le_nat_alt)
  then show "unat (b AND 0x0f) < 16" by simp
qed

lemma byte_of_nibbles:
  fixes a b :: byte
  assumes "drop_bit 4 a = drop_bit 4 b" and "a AND 0x0f = b AND 0x0f"
  shows "a = b"
proof -
  have m: "(0x0f :: byte) = mask 4" by (simp add: mask_eq_exp_minus_1)
  have "take_bit 4 a = a AND 0x0f" "take_bit 4 b = b AND 0x0f"
    unfolding m by (rule take_bit_eq_mask)+
  with assms(2) have t: "take_bit 4 a = take_bit 4 b" by (simp only:)
  have "a = push_bit 4 (drop_bit 4 a) + take_bit 4 a" by (simp only: bits_ident)
  also have "\<dots> = push_bit 4 (drop_bit 4 b) + take_bit 4 b" by (simp only: assms(1) t)
  also have "\<dots> = b" by (simp only: bits_ident)
  finally show ?thesis .
qed

lemma alphabet_nth_inj:
  assumes "alphabet ! m = alphabet ! n" and "m < 16" and "n < 16"
  shows "m = n"
  using assms nth_eq_iff_index_eq [OF distinct_alphabet, of m n]
  by (simp only: length_alphabet)

lemma toHexString_byte:
  assumes "toHexString d1 = toHexString d2" and "j < 32"
  shows "byte_at d1 j = byte_at d2 j"
proof -
  have hi: "alphabet ! unat (drop_bit 4 (byte_at d1 j)) = alphabet ! unat (drop_bit 4 (byte_at d2 j))"
    using toHexString_nth(1) [OF assms(2), of d1] toHexString_nth(1) [OF assms(2), of d2] assms(1)
    by (simp only:)
  have lo: "alphabet ! unat (byte_at d1 j AND 0x0f) = alphabet ! unat (byte_at d2 j AND 0x0f)"
    using toHexString_nth(2) [OF assms(2), of d1] toHexString_nth(2) [OF assms(2), of d2] assms(1)
    by (simp only:)
  have "unat (drop_bit 4 (byte_at d1 j)) = unat (drop_bit 4 (byte_at d2 j))"
    by (rule alphabet_nth_inj [OF hi nibble_bounds(1) nibble_bounds(1)])
  then have 1: "drop_bit 4 (byte_at d1 j) = drop_bit 4 (byte_at d2 j)"
    by (simp only: word_unat_eq_iff)
  have "unat (byte_at d1 j AND 0x0f) = unat (byte_at d2 j AND 0x0f)"
    by (rule alphabet_nth_inj [OF lo nibble_bounds(2) nibble_bounds(2)])
  then have 2: "byte_at d1 j AND 0x0f = byte_at d2 j AND 0x0f"
    by (simp only: word_unat_eq_iff)
  from 1 2 show ?thesis by (rule byte_of_nibbles)
qed

lemma bytes32_of_bytes:
  assumes "\<And>j. j < 32 \<Longrightarrow> byte_at d1 j = byte_at d2 j"
  shows "d1 = d2"
proof (rule bit_word_eqI)
  fix n assume n: "n < LENGTH(256)"
  define k where "k = n div 8"
  define r where "r = n mod 8"
  from n have k: "k < 32" and r: "r < 8" and nkr: "n = 8 * k + r"
    by (simp_all add: k_def r_def)
  from assms [of "31 - k"] k have "byte_at d1 (31 - k) = byte_at d2 (31 - k)" by simp
  then have "bit (byte_at d1 (31 - k)) r = bit (byte_at d2 (31 - k)) r" by simp
  with k r show "bit d1 n = bit d2 n"
    by (simp add: byte_at_def bit_ucast_iff bit_drop_bit_eq nkr)
qed

lemma inj_toHexString: "toHexString d1 = toHexString d2 \<Longrightarrow> d1 = d2"
  by (rule bytes32_of_bytes) (rule toHexString_byte)

lemma hashOfScript_eq_iff:
  "hashOfScript H s1 = hashOfScript H s2 \<longleftrightarrow> H (encode_string s1) = H (encode_string s2)"
  by (auto simp: hashOfScript_def dest: inj_toHexString)

text \<open>What a state update that returns has done.\<close>

lemma updateLatticeState_Inr:
  assumes "updateLatticeState H e effect c = Inr c'"
  shows "evolutionCount (currentState c') = evolutionCount (currentState c) + 1"
    and "unat (evolutionCount (currentState c)) + 1 < 2 ^ 256"
    and "phaseVariance (currentState c') =
           (phaseVariance (currentState c) + effect * goldenRatio div 1000000) mod 2000000"
    and "stateHash (currentState c') =
           H (encode_uint256 (evolutionCount (currentState c')) @
              encode_uint256 (phaseVariance (currentState c')) @
              encode_uint256 (block_timestamp e) @ encode_uint256 (block_difficulty e))"
    and "timestamp (currentState c') = block_timestamp e"
    and "\<not> consensusLocked (currentState c')"
    and "latticeScripts c' = latticeScripts c"
    and "commitments c' = commitments c"
    and "authorizedValidators c' = authorizedValidators c"
    and "scriptHashes c' = scriptHashes c"
    and "commitmentHashes c' = commitmentHashes c"
    and "events c' = events c @ [StateUpdate (evolutionCount (currentState c'))
           (phaseVariance (currentState c')) (stateHash (currentState c'))]"
  using assms
  by (auto simp: updateLatticeState_def Let_def checked_add_def checked_mul_def emit_def
           split: sum.splits if_splits)

lemma updateLatticeState_unat:
  assumes "updateLatticeState H e effect c = Inr c'"
  shows "unat (evolutionCount (currentState c')) = unat (evolutionCount (currentState c)) + 1"
  using updateLatticeState_Inr(1,2) [OF assms] by (simp add: unat_word_ariths)

lemma updateLatticeState_bound:
  assumes "updateLatticeState H e effect c = Inr c'"
  shows "unat (phaseVariance (currentState c')) < 2000000"
  using updateLatticeState_Inr(3) [OF assms] by (simp add: unat_mod)

lemma updateLatticeState_ok:
  assumes "unat (evolutionCount (currentState c)) + 1 < 2 ^ 256"
    and "unat effect * 1618034 < 2 ^ 256"
    and "unat (phaseVariance (currentState c)) + unat effect * 1618034 div 1000000 < 2 ^ 256"
  shows "\<exists>c'. updateLatticeState H e effect c = Inr c'"
proof -
  have 1: "checked_add (evolutionCount (currentState c)) 1 = Inr (evolutionCount (currentState c) + 1)"
    using assms(1) by (simp add: checked_add_ok)
  have 2: "checked_mul effect goldenRatio = Inr (effect * goldenRatio)"
    using assms(2) by (simp add: checked_mul_ok unat_goldenRatio)
  have 3: "checked_add (phaseVariance (currentState c)) (effect * goldenRatio div 1000000)
      = Inr (phaseVariance (currentState c) + effect * goldenRatio div 1000000)"
    using assms(3) unat_varianceChange [OF assms(2)] by (simp add: checked_add_ok)
  show ?thesis by (simp add: updateLatticeState_def 1 2 3 Let_def)
qed

text \<open>What a script execution that returns has done before the state update.\<close>

lemma executeLatticeScript_Inr:
  assumes "executeLatticeScript H e content effect c = Inr (h, c')"
  shows "h = hashOfScript H content \<and>
    (\<exists>c1. updateLatticeState H e effect c1 = Inr c' \<and>
       currentState c1 = currentState c \<and>
       commitments c1 = commitments c \<and>
       authorizedValidators c1 = authorizedValidators c \<and>
       commitmentHashes c1 = commitmentHashes c \<and>
       events c1 = events c @ [ScriptExecuted h (sender e) effect] \<and>
       (if scriptHash (latticeScripts c h) = []
        then scriptHashes c1 = scriptHashes c @ [h] \<and>
             latticeScripts c1 = (latticeScripts c)(h :=
               \<lparr> scriptHash = h, scriptContent = content, submitter = sender e,
                 executionCount = 1, latticeEffect = effect,
                 scriptTimestamp = block_timestamp e, verified = False \<rparr>)
        else scriptHashes c1 = scriptHashes c \<and>
             (\<exists>n. checked_add (executionCount (latticeScripts c h)) 1 = Inr n \<and>
               latticeScripts c1 = (latticeScripts c)(h :=
                 (latticeScripts c h)\<lparr>executionCount := n, latticeEffect := effect,
                                       scriptTimestamp := block_timestamp e\<rparr>))))"
  using assms
  by (auto simp: executeLatticeScript_def Let_def emit_def split: sum.splits if_splits)

lemma executeLatticeScript_state:
  assumes "executeLatticeScript H e content effect c = Inr (h, c')"
  shows "\<exists>c1. updateLatticeState H e effect c1 = Inr c' \<and> currentState c1 = currentState c
            \<and> authorizedValidators c1 = authorizedValidators c \<and> commitments c1 = commitments c"
  using executeLatticeScript_Inr [OF assms] by blast

lemma executeLatticeScript_ok:
  assumes "unat (evolutionCount (currentState c)) + 1 < 2 ^ 256"
    and "unat effect * 1618034 < 2 ^ 256"
    and "unat (phaseVariance (currentState c)) + unat effect * 1618034 div 1000000 < 2 ^ 256"
    and "scriptHash (latticeScripts c (hashOfScript H content)) \<noteq> [] \<longrightarrow>
         unat (executionCount (latticeScripts c (hashOfScript H content))) + 1 < 2 ^ 256"
  shows "\<exists>c'. executeLatticeScript H e content effect c = Inr (hashOfScript H content, c')"
proof -
  define sh where "sh = hashOfScript H content"
  have upd: "\<exists>c'. updateLatticeState H e effect (emit ev c1) = Inr c'"
    if "currentState c1 = currentState c" for c1 ev
    using updateLatticeState_ok [of "emit ev c1" effect H e] assms(1-3) that
    by (simp add: emit_def)
  show ?thesis
  proof (cases "scriptHash (latticeScripts c sh) = []")
    case True
    obtain c' where "updateLatticeState H e effect
        (emit (ScriptExecuted sh (sender e) effect)
          (c\<lparr>latticeScripts := (latticeScripts c)(sh :=
               \<lparr> scriptHash = sh, scriptContent = content, submitter = sender e,
                 executionCount = 1, latticeEffect = effect,
                 scriptTimestamp = block_timestamp e, verified = False \<rparr>),
             scriptHashes := scriptHashes c @ [sh]\<rparr>)) = Inr c'"
      using upd by force
    with True have "executeLatticeScript H e content effect c = Inr (sh, c')"
      by (simp add: executeLatticeScript_def Let_def sh_def [symmetric])
    then show ?thesis unfolding sh_def by blast
  next
    case False
    with assms(4) have n: "checked_add (executionCount (latticeScripts c sh)) 1
        = Inr (executionCount (latticeScripts c sh) + 1)"
      by (simp add: sh_def checked_add_ok)
    obtain c' where "updateLatticeState H e effect
        (emit (ScriptExecuted sh (sender e) effect)
          (c\<lparr>latticeScripts := (latticeScripts c)(sh :=
               (latticeScripts c sh)\<lparr>executionCount := executionCount (latticeScripts c sh) + 1,
                  latticeEffect := effect, scriptTimestamp := block_timestamp e\<rparr>)\<rparr>)) = Inr c'"
      using upd by force
    with False n have "executeLatticeScript H e content effect c = Inr (sh, c')"
      by (simp add: executeLatticeScript_def Let_def sh_def [symmetric])
    then show ?thesis unfolding sh_def by blast
  qed
qed

text \<open>The calls other than a script execution leave the lattice numbers alone.\<close>

lemma onlyAuthorized_Inr:
  "onlyAuthorized e c body = Inr c' \<Longrightarrow> authorizedValidators c (sender e) \<and> body c = Inr c'"
  by (auto simp: onlyAuthorized_def split: if_splits)

lemma authorizeValidator_state:
  "authorizeValidator e v c = Inr c' \<Longrightarrow> currentState c' = currentState c"
  by (auto simp: authorizeValidator_def emit_def dest!: onlyAuthorized_Inr)

lemma makeCommitment_state:
  "makeCommitment e h c = Inr c' \<Longrightarrow> currentState c' = currentState c"
  by (auto simp: makeCommitment_def emit_def dest!: onlyAuthorized_Inr split: if_splits)

lemma confirmCommitment_state:
  "confirmCommitment e h c = Inr c' \<Longrightarrow>
     currentState c' = (currentState c)\<lparr>consensusLocked := True\<rparr>"
  by (auto simp: confirmCommitment_def emit_def Let_def dest!: onlyAuthorized_Inr split: if_splits)

lemma emergencyPause_state:
  "emergencyPause e c = Inr c' \<Longrightarrow> c' = c"
  by (auto simp: emergencyPause_def dest!: onlyAuthorized_Inr)

lemma exec_execute_Inr:
  "exec H e (ExecuteLatticeScript content effect) c = Inr c' \<Longrightarrow>
     executeLatticeScript H e content effect c = Inr (hashOfScript H content, c')"
  by (cases "executeLatticeScript H e content effect c")
     (auto dest: executeLatticeScript_Inr [THEN conjunct1])

lemma exec_evolutionCount:
  assumes "exec H e cl c = Inr c'"
  shows "unat (evolutionCount (currentState c)) \<le> unat (evolutionCount (currentState c'))"
proof (cases cl)
  case (ExecuteLatticeScript content effect)
  with assms have "executeLatticeScript H e content effect c = Inr (hashOfScript H content, c')"
    by (simp add: exec_execute_Inr)
  from executeLatticeScript_state [OF this] show ?thesis
    by (auto dest: updateLatticeState_unat)
qed (use assms in \<open>auto dest: authorizeValidator_state makeCommitment_state
       confirmCommitment_state emergencyPause_state\<close>)

lemma exec_phaseVariance:
  assumes "exec H e cl c = Inr c'" and "unat (phaseVariance (currentState c)) < 2000000"
  shows "unat (phaseVariance (currentState c')) < 2000000"
proof (cases cl)
  case (ExecuteLatticeScript content effect)
  with assms have "executeLatticeScript H e content effect c = Inr (hashOfScript H content, c')"
    by (simp add: exec_execute_Inr)
  from executeLatticeScript_state [OF this] show ?thesis
    by (auto dest: updateLatticeState_bound)
qed (use assms in \<open>auto dest: authorizeValidator_state makeCommitment_state
       confirmCommitment_state emergencyPause_state\<close>)

section \<open>Monotonic evolution count\<close>

lemma deployed_a_execute:
  "\<exists>c'. executeLatticeScript stub_keccak env_c content 3 deployed_a = Inr (hashOfScript stub_keccak content, c')"
  by (rule executeLatticeScript_ok)
     (simp_all add: deployed_a_def constructor_def genesisState_def emptyScript_def)

text \<open>
  Claim C5. \<open>evolutionCount\<close> is monotonic: a state update that completes, reached
  through \<open>executeLatticeScript\<close> or taken alone, raises it by exactly 1 (the increment is
  checked, so it never wraps), and no transaction of the contract, whatever the call and
  whether it returns or reverts, lowers it.
\<close>

theorem evolutionCount_monotonic:
  "(updateLatticeState H e effect c = Inr c1 \<longrightarrow>
      unat (evolutionCount (currentState c1)) = unat (evolutionCount (currentState c)) + 1) \<and>
   (executeLatticeScript H e content effect c = Inr (h, c2) \<longrightarrow>
      unat (evolutionCount (currentState c2)) = unat (evolutionCount (currentState c)) + 1) \<and>
   unat (evolutionCount (currentState c)) \<le> unat (evolutionCount (currentState (transact H e cl c)))"
proof (intro conjI impI)
  assume "updateLatticeState H e effect c = Inr c1"
  then show "unat (evolutionCount (currentState c1)) = unat (evolutionCount (currentState c)) + 1"
    by (rule updateLatticeState_unat)
next
  assume "executeLatticeScript H e content effect c = Inr (h, c2)"
  from executeLatticeScript_state [OF this]
  show "unat (evolutionCount (currentState c2)) = unat (evolutionCount (currentState c)) + 1"
    by (auto dest: updateLatticeState_unat)
next
  show "unat (evolutionCount (currentState c)) \<le> unat (evolutionCount (currentState (transact H e cl c)))"
    by (cases "exec H e cl c") (auto simp: transact_def dest: exec_evolutionCount)
qed

theorem evolutionCount_monotonic_witness:
  "unat (evolutionCount (currentState
     (transact stub_keccak env_c (ExecuteLatticeScript ''tape'' 3) deployed_a))) = 1"
proof -
  obtain c' where ex: "executeLatticeScript stub_keccak env_c ''tape'' 3 deployed_a
      = Inr (hashOfScript stub_keccak ''tape'', c')"
    using deployed_a_execute by blast
  have "unat (evolutionCount (currentState c')) = unat (evolutionCount (currentState deployed_a)) + 1"
    using evolutionCount_monotonic [of stub_keccak env_c 3 deployed_a c' "''tape''"
        "hashOfScript stub_keccak ''tape''" c' "EmergencyPause"] ex
    by blast
  moreover have "transact stub_keccak env_c (ExecuteLatticeScript ''tape'' 3) deployed_a = c'"
    by (simp add: transact_def ex)
  ultimately show ?thesis
    by (simp add: deployed_a_def constructor_def genesisState_def)
qed


section \<open>Bounded phase variance\<close>

lemma transact_cases:
  "transact H e cl c = c \<or> exec H e cl c = Inr (transact H e cl c)"
  by (cases "exec H e cl c") (auto simp: transact_def)

lemma reachable_phaseVariance:
  "reachable H c \<Longrightarrow> unat (phaseVariance (currentState c)) < 2000000"
proof (induction rule: reachable.induct)
  case (deployed e)
  show ?case by (simp add: constructor_def genesisState_def)
next
  case (called c e cl)
  from transact_cases [of H e cl c] show ?case
  proof
    assume "transact H e cl c = c"
    with called.IH show ?thesis by simp
  next
    assume "exec H e cl c = Inr (transact H e cl c)"
    then show ?thesis using called.IH by (rule exec_phaseVariance)
  qed
qed

text \<open>
  Claim C7. \<open>phaseVariance\<close> is non-negative and strictly below 2,000,000 in the genesis
  state and in every state the contract reaches afterwards, and every state update that
  completes, from any state at all, leaves it strictly below 2,000,000.
\<close>

theorem phaseVariance_bounded:
  "(reachable H c \<longrightarrow>
      0 \<le> unat (phaseVariance (currentState c)) \<and> unat (phaseVariance (currentState c)) < 2000000) \<and>
   unat (phaseVariance (genesisState H e)) = 1123580 \<and>
   (updateLatticeState H e effect c0 = Inr c1 \<longrightarrow>
      0 \<le> unat (phaseVariance (currentState c1)) \<and> unat (phaseVariance (currentState c1)) < 2000000)"
proof -
  have 1: "unat (phaseVariance (currentState c)) < 2000000" if "reachable H c"
    using that by (rule reachable_phaseVariance)
  have 2: "unat (phaseVariance (genesisState H e)) = 1123580"
    by (simp add: genesisState_def)
  have 3: "unat (phaseVariance (currentState c1)) < 2000000"
    if "updateLatticeState H e effect c0 = Inr c1"
    using that by (rule updateLatticeState_bound)
  from 1 2 3 show ?thesis by simp
qed

theorem phaseVariance_bounded_witness:
  "reachable stub_keccak (transact stub_keccak env_c (ExecuteLatticeScript ''tape'' 3) deployed_a) \<and>
   unat (phaseVariance (currentState
     (transact stub_keccak env_c (ExecuteLatticeScript ''tape'' 3) deployed_a))) < 2000000"
proof -
  have r: "reachable stub_keccak (transact stub_keccak env_c (ExecuteLatticeScript ''tape'' 3) deployed_a)"
    unfolding deployed_a_def by (intro reachable.intros)
  with phaseVariance_bounded [of stub_keccak
      "transact stub_keccak env_c (ExecuteLatticeScript ''tape'' 3) deployed_a" env_a 0 deployed_a deployed_a]
  show ?thesis by blast
qed

section \<open>The consensus lock\<close>

text \<open>The example states: commitment 1 made, then confirmed.\<close>

lemma made_a:
  "transact stub_keccak env_a (MakeCommitment 1) deployed_a =
     emit (CommitmentMade 1 7 5)
       (deployed_a\<lparr>commitments := (commitments deployed_a)(1 :=
            \<lparr> commitmentHash = 1, blockHeight = 5, validator = 7, commitmentTimestamp = 1000,
              confirmed = False \<rparr>),
          commitmentHashes := [1]\<rparr>)"
  by (simp add: transact_def makeCommitment_def onlyAuthorized_def deployed_a_def constructor_def
        emptyCommitment_def env_a_def)

lemma confirm_made_a:
  "\<exists>c'. confirmCommitment env_a 1 (transact stub_keccak env_a (MakeCommitment 1) deployed_a) = Inr c'"
  unfolding made_a
  by (simp add: confirmCommitment_def onlyAuthorized_def deployed_a_def constructor_def
        genesisState_def emit_def env_a_def Let_def)

lemma confirmed_a_exec:
  "confirmCommitment env_a 1 (transact stub_keccak env_a (MakeCommitment 1) deployed_a) = Inr confirmed_a"
  using confirm_made_a by (auto simp: confirmed_a_def transact_def)

lemma confirmed_a_eq:
  "confirmed_a =
     \<lparr> currentState = \<lparr> evolutionCount = 0, phaseVariance = 1123580,
           stateHash = stub_keccak (encode_string ''genesis''),
           timestamp = 1000, consensusLocked = True \<rparr>,
       latticeScripts = (\<lambda>_. emptyScript),
       commitments = (\<lambda>_. emptyCommitment)(1 :=
           \<lparr> commitmentHash = 1, blockHeight = 5, validator = 7, commitmentTimestamp = 1000,
             confirmed = True \<rparr>),
       authorizedValidators = (\<lambda>a. a = 7),
       scriptHashes = [],
       commitmentHashes = [1],
       events = [ValidatorAuthorized 7, CommitmentMade 1 7 5,
                 ConsensusAchieved (stub_keccak (encode_string ''genesis'')) 1000] \<rparr>"
  using confirmed_a_exec unfolding made_a
  by (simp add: confirmCommitment_def onlyAuthorized_def deployed_a_def constructor_def
        genesisState_def emit_def env_a_def Let_def)

lemma confirmed_a_fields:
  shows "currentState confirmed_a = (genesisState stub_keccak env_a)\<lparr>consensusLocked := True\<rparr>"
    and "authorizedValidators confirmed_a = (\<lambda>a. a = 7)"
    and "latticeScripts confirmed_a = (\<lambda>_. emptyScript)"
    and "commitments confirmed_a 1 =
           \<lparr> commitmentHash = 1, blockHeight = 5, validator = 7, commitmentTimestamp = 1000,
             confirmed = True \<rparr>"
  by (simp_all add: confirmed_a_eq genesisState_def env_a_def)

lemma confirmed_a_execute:
  "\<exists>c'. executeLatticeScript stub_keccak e content 3 confirmed_a = Inr (hashOfScript stub_keccak content, c')"
  by (rule executeLatticeScript_ok)
     (simp_all add: confirmed_a_fields genesisState_def emptyScript_def)

text \<open>The commitment 2 made by 7 on the locked state.\<close>

lemma made_b:
  "transact stub_keccak env_b (MakeCommitment 2) confirmed_a =
     emit (CommitmentMade 2 7 6)
       (confirmed_a\<lparr>commitments := (commitments confirmed_a)(2 :=
            \<lparr> commitmentHash = 2, blockHeight = 6, validator = 7, commitmentTimestamp = 2000,
              confirmed = False \<rparr>),
          commitmentHashes := [1, 2]\<rparr>)"
  by (simp add: transact_def makeCommitment_def onlyAuthorized_def confirmed_a_eq
        emptyCommitment_def env_b_def)

text \<open>When a confirmation returns: the lock plays no part in it.\<close>

lemma confirmCommitment_ok:
  assumes "authorizedValidators c (sender e)"
    and "validator (commitments c h) \<noteq> 0"
    and "\<not> confirmed (commitments c h)"
  shows "\<exists>c'. confirmCommitment e h c = Inr c'"
  using assms by (simp add: confirmCommitment_def onlyAuthorized_def Let_def)


text \<open>
  Claim C6. A confirmation by an authorized validator of a commitment that exists and is
  not yet confirmed returns, whether the lock is set or not, and a confirmation that
  returns leaves \<open>consensusLocked\<close> true. If the lock was
  already set, the lattice state is untouched and nothing is logged; if it was not, exactly
  one \<open>ConsensusAchieved\<close> event is logged, with the state hash and the block's time. No
  call of the contract logs \<open>ConsensusAchieved\<close> except on a transition of the lock from
  false to true.
\<close>

theorem confirmCommitment_lock_idempotent:
  "(confirmCommitment e h c = Inr c' \<longrightarrow>
      consensusLocked (currentState c') \<and>
      (consensusLocked (currentState c) \<longrightarrow>
         currentState c' = currentState c \<and> events c' = events c) \<and>
      (\<not> consensusLocked (currentState c) \<longrightarrow>
         events c' = events c @
           [ConsensusAchieved (stateHash (currentState c)) (block_timestamp e)])) \<and>
   (exec H e cl c = Inr c2 \<longrightarrow>
      take (length (events c)) (events c2) = events c \<and>
      (\<forall>sh t. ConsensusAchieved sh t \<in> set (drop (length (events c)) (events c2)) \<longrightarrow>
         \<not> consensusLocked (currentState c) \<and> consensusLocked (currentState c2))) \<and>
   (authorizedValidators c (sender e) \<and> validator (commitments c h) \<noteq> 0 \<and>
    \<not> confirmed (commitments c h) \<longrightarrow>
      (\<exists>c3. confirmCommitment e h c = Inr c3))"
proof -
  have 1: "consensusLocked (currentState c')" if "confirmCommitment e h c = Inr c'"
    using that by (simp add: confirmCommitment_state)
  have 2: "currentState c' = currentState c \<and> events c' = events c"
    if "confirmCommitment e h c = Inr c'" "consensusLocked (currentState c)"
    using that
    by (auto simp: confirmCommitment_def Let_def dest!: onlyAuthorized_Inr split: if_splits)
  have 3: "events c' = events c @ [ConsensusAchieved (stateHash (currentState c)) (block_timestamp e)]"
    if "confirmCommitment e h c = Inr c'" "\<not> consensusLocked (currentState c)"
    using that
    by (auto simp: confirmCommitment_def Let_def emit_def dest!: onlyAuthorized_Inr split: if_splits)
  have 4: "take (length (events c)) (events c2) = events c \<and>
      (\<forall>sh t. ConsensusAchieved sh t \<in> set (drop (length (events c)) (events c2)) \<longrightarrow>
         \<not> consensusLocked (currentState c) \<and> consensusLocked (currentState c2))"
    if b: "exec H e cl c = Inr c2"
  proof (cases cl)
    case (ExecuteLatticeScript content effect)
    with b have "executeLatticeScript H e content effect c = Inr (hashOfScript H content, c2)"
      by (simp add: exec_execute_Inr)
    from executeLatticeScript_Inr [OF this] obtain c1 where
      "updateLatticeState H e effect c1 = Inr c2"
      "events c1 = events c @ [ScriptExecuted (hashOfScript H content) (sender e) effect]"
      by blast
    with updateLatticeState_Inr(12) [of H e effect c1 c2] show ?thesis by simp
  next
    case (ConfirmCommitment h')
    with b show ?thesis
      by (auto simp: confirmCommitment_def Let_def emit_def dest!: onlyAuthorized_Inr split: if_splits)
  next
    case (AuthorizeValidator v)
    with b show ?thesis
      by (auto simp: authorizeValidator_def emit_def dest!: onlyAuthorized_Inr)
  next
    case (MakeCommitment h')
    with b show ?thesis
      by (auto simp: makeCommitment_def emit_def dest!: onlyAuthorized_Inr split: if_splits)
  next
    case EmergencyPause
    with b show ?thesis
      by (auto simp: emergencyPause_def dest!: onlyAuthorized_Inr)
  qed
  have 5: "\<exists>c3. confirmCommitment e h c = Inr c3"
    if "authorizedValidators c (sender e)" "validator (commitments c h) \<noteq> 0"
      "\<not> confirmed (commitments c h)"
    using that by (rule confirmCommitment_ok)
  from 1 2 3 4 5 show ?thesis by blast
qed

theorem confirmCommitment_lock_idempotent_witness:
  "\<not> consensusLocked (currentState (transact stub_keccak env_a (MakeCommitment 1) deployed_a)) \<and>
   confirmCommitment env_a 1 (transact stub_keccak env_a (MakeCommitment 1) deployed_a) =
     Inr confirmed_a \<and>
   consensusLocked (currentState confirmed_a) \<and>
   events confirmed_a =
     events (transact stub_keccak env_a (MakeCommitment 1) deployed_a) @
       [ConsensusAchieved (stateHash (currentState
          (transact stub_keccak env_a (MakeCommitment 1) deployed_a))) (block_timestamp env_a)] \<and>
   consensusLocked (currentState (transact stub_keccak env_b (MakeCommitment 2) confirmed_a)) \<and>
   (\<exists>c'. confirmCommitment env_b 2 (transact stub_keccak env_b (MakeCommitment 2) confirmed_a) =
            Inr c' \<and>
          consensusLocked (currentState c') \<and>
          currentState c' =
            currentState (transact stub_keccak env_b (MakeCommitment 2) confirmed_a) \<and>
          events c' = events (transact stub_keccak env_b (MakeCommitment 2) confirmed_a))"
proof -
  define m1 where "m1 = transact stub_keccak env_a (MakeCommitment 1) deployed_a"
  define m2 where "m2 = transact stub_keccak env_b (MakeCommitment 2) confirmed_a"
  have u: "\<not> consensusLocked (currentState m1)"
    unfolding m1_def made_a by (simp add: emit_def deployed_a_def constructor_def genesisState_def)
  have first: "confirmCommitment env_a 1 m1 = Inr confirmed_a"
    unfolding m1_def by (rule confirmed_a_exec)
  from confirmCommitment_lock_idempotent [of env_a 1 m1 confirmed_a stub_keccak EmergencyPause
      confirmed_a] first u
  have a: "consensusLocked (currentState confirmed_a) \<and>
      events confirmed_a = events m1 @
        [ConsensusAchieved (stateHash (currentState m1)) (block_timestamp env_a)]"
    by blast
  have l: "consensusLocked (currentState m2)"
    unfolding m2_def made_b by (simp add: emit_def confirmed_a_eq)
  have pre: "authorizedValidators m2 (sender env_b) \<and> validator (commitments m2 2) \<noteq> 0 \<and>
      \<not> confirmed (commitments m2 2)"
    unfolding m2_def made_b by (simp add: emit_def confirmed_a_eq env_b_def)
  from confirmCommitment_lock_idempotent [of env_b 2 m2 confirmed_a stub_keccak EmergencyPause
      confirmed_a] pre
  obtain c' where second: "confirmCommitment env_b 2 m2 = Inr c'"
    by blast
  from confirmCommitment_lock_idempotent [of env_b 2 m2 c' stub_keccak EmergencyPause
      confirmed_a] second l
  have b: "consensusLocked (currentState c') \<and> currentState c' = currentState m2 \<and>
      events c' = events m2"
    by blast
  from u first a l second b show ?thesis
    unfolding m1_def m2_def by blast
qed

section \<open>Authorization\<close>

lemma unauthorized_reverts:
  assumes "\<not> authorizedValidators c (sender e)"
  shows "makeCommitment e h c = Inl (Revert ''Not authorized validator'')"
    and "confirmCommitment e h c = Inl (Revert ''Not authorized validator'')"
    and "authorizeValidator e v c = Inl (Revert ''Not authorized validator'')"
    and "emergencyPause e c = Inl (Revert ''Not authorized validator'')"
  using assms
  by (simp_all add: makeCommitment_def confirmCommitment_def authorizeValidator_def
        emergencyPause_def onlyAuthorized_def)

text \<open>
  Claim C10. A sender that is not an authorized validator cannot make or confirm a
  commitment nor authorize a validator: each of the three calls reverts with
  \<open>Not authorized validator\<close> and the transaction leaves the contract as it was.
  \<open>executeLatticeScript\<close> has no such check: for every sender, authorized or not, the
  call returns whenever its checked arithmetic does not overflow, and it then advances
  \<open>evolutionCount\<close> and clears the consensus lock.
\<close>

theorem authorization_asymmetric:
  "(\<not> authorizedValidators c (sender e) \<longrightarrow>
      makeCommitment e h c = Inl (Revert ''Not authorized validator'') \<and>
      confirmCommitment e h c = Inl (Revert ''Not authorized validator'') \<and>
      authorizeValidator e v c = Inl (Revert ''Not authorized validator'') \<and>
      transact H e (MakeCommitment h) c = c \<and>
      transact H e (ConfirmCommitment h) c = c \<and>
      transact H e (AuthorizeValidator v) c = c) \<and>
   (unat (evolutionCount (currentState c)) + 1 < 2 ^ 256 \<and>
    unat effect * 1618034 < 2 ^ 256 \<and>
    unat (phaseVariance (currentState c)) + unat effect * 1618034 div 1000000 < 2 ^ 256 \<and>
    (scriptHash (latticeScripts c (hashOfScript H content)) \<noteq> [] \<longrightarrow>
       unat (executionCount (latticeScripts c (hashOfScript H content))) + 1 < 2 ^ 256) \<longrightarrow>
    (\<exists>c'. executeLatticeScript H e content effect c = Inr (hashOfScript H content, c') \<and>
          unat (evolutionCount (currentState c')) = unat (evolutionCount (currentState c)) + 1 \<and>
          \<not> consensusLocked (currentState c')))"
proof -
  have 1: "transact H e (MakeCommitment h) c = c \<and> transact H e (ConfirmCommitment h) c = c \<and>
      transact H e (AuthorizeValidator v) c = c"
    if "\<not> authorizedValidators c (sender e)"
    using unauthorized_reverts [OF that] by (simp add: transact_def)
  have 2: "\<exists>c'. executeLatticeScript H e content effect c = Inr (hashOfScript H content, c') \<and>
          unat (evolutionCount (currentState c')) = unat (evolutionCount (currentState c)) + 1 \<and>
          \<not> consensusLocked (currentState c')"
    if "unat (evolutionCount (currentState c)) + 1 < 2 ^ 256"
      "unat effect * 1618034 < 2 ^ 256"
      "unat (phaseVariance (currentState c)) + unat effect * 1618034 div 1000000 < 2 ^ 256"
      "scriptHash (latticeScripts c (hashOfScript H content)) \<noteq> [] \<longrightarrow>
       unat (executionCount (latticeScripts c (hashOfScript H content))) + 1 < 2 ^ 256"
  proof -
    from executeLatticeScript_ok [OF that] obtain c' where
      ex: "executeLatticeScript H e content effect c = Inr (hashOfScript H content, c')"
      by blast
    from executeLatticeScript_state [OF ex] obtain c1 where
      u: "updateLatticeState H e effect c1 = Inr c'" and s: "currentState c1 = currentState c"
      by blast
    from updateLatticeState_unat [OF u] updateLatticeState_Inr(6) [OF u] s ex
    show ?thesis by simp
  qed
  from 1 2 unauthorized_reverts(1-3) show ?thesis by blast
qed

theorem authorization_asymmetric_witness:
  "\<not> authorizedValidators confirmed_a (sender env_c) \<and>
   consensusLocked (currentState confirmed_a) \<and>
   makeCommitment env_c 2 confirmed_a = Inl (Revert ''Not authorized validator'') \<and>
   (\<exists>c'. executeLatticeScript stub_keccak env_c ''tape'' 3 confirmed_a =
            Inr (hashOfScript stub_keccak ''tape'', c') \<and>
          \<not> consensusLocked (currentState c'))"
proof -
  have a: "\<not> authorizedValidators confirmed_a (sender env_c)"
    by (simp add: confirmed_a_fields env_c_def)
  have b: "unat (evolutionCount (currentState confirmed_a)) + 1 < 2 ^ 256 \<and>
    unat (3 :: uint256) * 1618034 < 2 ^ 256 \<and>
    unat (phaseVariance (currentState confirmed_a)) + unat (3 :: uint256) * 1618034 div 1000000 < 2 ^ 256 \<and>
    (scriptHash (latticeScripts confirmed_a (hashOfScript stub_keccak ''tape'')) \<noteq> [] \<longrightarrow>
       unat (executionCount (latticeScripts confirmed_a (hashOfScript stub_keccak ''tape''))) + 1 < 2 ^ 256)"
    by (simp add: confirmed_a_fields genesisState_def emptyScript_def)
  have c: "consensusLocked (currentState confirmed_a)"
    by (simp add: confirmed_a_fields)
  from a b c authorization_asymmetric [of confirmed_a env_c 2 0 stub_keccak 3 "''tape''"]
  show ?thesis by blast
qed

section \<open>The lock and the state update\<close>

lemma exec_other_state:
  assumes "exec H e cl c = Inr c'" and "\<forall>content effect. cl \<noteq> ExecuteLatticeScript content effect"
  shows "evolutionCount (currentState c') = evolutionCount (currentState c)"
    and "phaseVariance (currentState c') = phaseVariance (currentState c)"
    and "stateHash (currentState c') = stateHash (currentState c)"
    and "consensusLocked (currentState c) \<longrightarrow> consensusLocked (currentState c')"
  using assms
  by (cases cl; auto dest: authorizeValidator_state makeCommitment_state
        confirmCommitment_state emergencyPause_state)+

text \<open>
  Claim C1 says that a locked contract is frozen: \<open>executeLatticeScript\<close> would leave
  \<open>evolutionCount\<close>, \<open>phaseVariance\<close> and \<open>stateHash\<close> unchanged and the lock set.
  It does not. After 7 has deployed the contract and made and confirmed commitment 1, the
  lock is set; one script execution with effect 3 then moves \<open>evolutionCount\<close> from 0
  to 1 and \<open>phaseVariance\<close> from 1123580 to 1123584, and clears the lock.
\<close>

theorem lock_not_preserved_counterexample:
  "consensusLocked (currentState confirmed_a) \<and>
   evolutionCount (currentState confirmed_a) = 0 \<and>
   phaseVariance (currentState confirmed_a) = 1123580 \<and>
   evolutionCount (currentState
     (transact stub_keccak env_b (ExecuteLatticeScript ''tape'' 3) confirmed_a)) = 1 \<and>
   phaseVariance (currentState
     (transact stub_keccak env_b (ExecuteLatticeScript ''tape'' 3) confirmed_a)) = 1123584 \<and>
   \<not> consensusLocked (currentState
     (transact stub_keccak env_b (ExecuteLatticeScript ''tape'' 3) confirmed_a))"
proof -
  obtain c' where ex: "executeLatticeScript stub_keccak env_b ''tape'' 3 confirmed_a
      = Inr (hashOfScript stub_keccak ''tape'', c')"
    using confirmed_a_execute by blast
  then have t: "transact stub_keccak env_b (ExecuteLatticeScript ''tape'' 3) confirmed_a = c'"
    by (simp add: transact_def)
  from executeLatticeScript_state [OF ex] obtain c1 where
    u: "updateLatticeState stub_keccak env_b 3 c1 = Inr c'" and
    s: "currentState c1 = currentState confirmed_a"
    by blast
  have "evolutionCount (currentState c') = 1"
    using updateLatticeState_Inr(1) [OF u] s by (simp add: confirmed_a_fields genesisState_def)
  moreover have "phaseVariance (currentState c') = 1123584"
    using updateLatticeState_Inr(3) [OF u] s
    by (simp add: confirmed_a_fields genesisState_def goldenRatio_def)
  moreover note updateLatticeState_Inr(6) [OF u]
  ultimately show ?thesis
    unfolding t by (simp add: confirmed_a_fields genesisState_def)
qed

text \<open>
  Claim C1, as amended. In the contract the lock does not gate the state update: every
  \<open>executeLatticeScript\<close> that returns, from a locked state or not, raises
  \<open>evolutionCount\<close> by 1, recomputes \<open>phaseVariance\<close> and \<open>stateHash\<close> and leaves
  \<open>consensusLocked\<close> false. Every other call leaves \<open>evolutionCount\<close>,
  \<open>phaseVariance\<close> and \<open>stateHash\<close> as they were and never clears a lock that is set.
\<close>

theorem lock_cleared_by_update:
  "(executeLatticeScript H e content effect c = Inr (h, c') \<longrightarrow>
      unat (evolutionCount (currentState c')) = unat (evolutionCount (currentState c)) + 1 \<and>
      phaseVariance (currentState c') =
        (phaseVariance (currentState c) + effect * goldenRatio div 1000000) mod 2000000 \<and>
      stateHash (currentState c') =
        H (encode_uint256 (evolutionCount (currentState c')) @
           encode_uint256 (phaseVariance (currentState c')) @
           encode_uint256 (block_timestamp e) @ encode_uint256 (block_difficulty e)) \<and>
      \<not> consensusLocked (currentState c')) \<and>
   ((\<forall>content effect. cl \<noteq> ExecuteLatticeScript content effect) \<longrightarrow>
      evolutionCount (currentState (transact H e cl c)) = evolutionCount (currentState c) \<and>
      phaseVariance (currentState (transact H e cl c)) = phaseVariance (currentState c) \<and>
      stateHash (currentState (transact H e cl c)) = stateHash (currentState c) \<and>
      (consensusLocked (currentState c) \<longrightarrow> consensusLocked (currentState (transact H e cl c))))"
proof -
  have 1: "unat (evolutionCount (currentState c')) = unat (evolutionCount (currentState c)) + 1 \<and>
      phaseVariance (currentState c') =
        (phaseVariance (currentState c) + effect * goldenRatio div 1000000) mod 2000000 \<and>
      stateHash (currentState c') =
        H (encode_uint256 (evolutionCount (currentState c')) @
           encode_uint256 (phaseVariance (currentState c')) @
           encode_uint256 (block_timestamp e) @ encode_uint256 (block_difficulty e)) \<and>
      \<not> consensusLocked (currentState c')"
    if "executeLatticeScript H e content effect c = Inr (h, c')"
  proof -
    from executeLatticeScript_state [OF that] obtain c1 where
      u: "updateLatticeState H e effect c1 = Inr c'" and s: "currentState c1 = currentState c"
      by blast
    from updateLatticeState_unat [OF u] updateLatticeState_Inr(3,4,6) [OF u] s
    show ?thesis by simp
  qed
  have 2: "evolutionCount (currentState (transact H e cl c)) = evolutionCount (currentState c) \<and>
      phaseVariance (currentState (transact H e cl c)) = phaseVariance (currentState c) \<and>
      stateHash (currentState (transact H e cl c)) = stateHash (currentState c) \<and>
      (consensusLocked (currentState c) \<longrightarrow> consensusLocked (currentState (transact H e cl c)))"
    if n: "\<forall>content effect. cl \<noteq> ExecuteLatticeScript content effect"
  proof (cases "exec H e cl c")
    case (Inl err)
    then show ?thesis by (simp add: transact_def)
  next
    case (Inr c2)
    from exec_other_state [OF Inr n] Inr show ?thesis by (simp add: transact_def)
  qed
  from 1 2 show ?thesis by blast
qed

theorem lock_cleared_by_update_witness:
  "(\<exists>c'. executeLatticeScript stub_keccak env_a ''tape'' 3 confirmed_a =
            Inr (hashOfScript stub_keccak ''tape'', c') \<and>
          consensusLocked (currentState confirmed_a) \<and>
          \<not> consensusLocked (currentState c')) \<and>
   consensusLocked (currentState (transact stub_keccak env_a (MakeCommitment 2) confirmed_a))"
proof -
  obtain c' where ex: "executeLatticeScript stub_keccak env_a ''tape'' 3 confirmed_a
      = Inr (hashOfScript stub_keccak ''tape'', c')"
    using confirmed_a_execute by blast
  have l: "consensusLocked (currentState confirmed_a)"
    by (simp add: confirmed_a_fields)
  have n: "\<forall>content effect. MakeCommitment 2 \<noteq> ExecuteLatticeScript content effect"
    by simp
  from lock_cleared_by_update [of stub_keccak env_a "''tape''" 3 confirmed_a
      "hashOfScript stub_keccak ''tape''" c' "MakeCommitment 2"] ex l n
  show ?thesis by blast
qed

section \<open>Resubmitting a confirmed digest\<close>

lemma exec_confirmed_validator:
  assumes "exec H e cl c = Inr c'"
    and "\<forall>h. confirmed (commitments c h) \<longrightarrow> validator (commitments c h) \<noteq> 0"
  shows "\<forall>h. confirmed (commitments c' h) \<longrightarrow> validator (commitments c' h) \<noteq> 0"
proof (cases cl)
  case (ExecuteLatticeScript content effect)
  with assms(1) have "executeLatticeScript H e content effect c = Inr (hashOfScript H content, c')"
    by (simp add: exec_execute_Inr)
  from executeLatticeScript_state [OF this] obtain c1 where
    "updateLatticeState H e effect c1 = Inr c'" "commitments c1 = commitments c"
    by blast
  with updateLatticeState_Inr(8) [of H e effect c1 c'] assms(2) show ?thesis by simp
next
  case (AuthorizeValidator v)
  with assms show ?thesis
    by (auto simp: authorizeValidator_def emit_def dest!: onlyAuthorized_Inr)
next
  case (MakeCommitment h')
  with assms show ?thesis
    by (auto simp: makeCommitment_def emit_def dest!: onlyAuthorized_Inr split: if_splits)
next
  case (ConfirmCommitment h')
  with assms show ?thesis
    by (auto simp: confirmCommitment_def emit_def Let_def dest!: onlyAuthorized_Inr split: if_splits)
next
  case EmergencyPause
  with assms show ?thesis
    by (auto dest: emergencyPause_state)
qed

lemma reachable_confirmed_validator:
  "reachable H c \<Longrightarrow> \<forall>h. confirmed (commitments c h) \<longrightarrow> validator (commitments c h) \<noteq> 0"
proof (induction rule: reachable.induct)
  case (deployed e)
  show ?case by (simp add: constructor_def emptyCommitment_def)
next
  case (called c e cl)
  from transact_cases [of H e cl c] show ?case
  proof
    assume "transact H e cl c = c"
    with called.IH show ?thesis by simp
  next
    assume "exec H e cl c = Inr (transact H e cl c)"
    then show ?thesis using called.IH by (rule exec_confirmed_validator)
  qed
qed

text \<open>
  Claim C2 says that resubmitting a digest that is already confirmed succeeds and is not
  reported as an error. Both calls of the resubmission revert: with commitment 1 made and
  confirmed by validator 7, the same validator's \<open>makeCommitment\<close> of 1 fails with
  \<open>Commitment already exists\<close> and its \<open>confirmCommitment\<close> of 1 with
  \<open>Already confirmed\<close>.
\<close>

theorem resubmission_counterexample:
  "confirmed (commitments confirmed_a 1) \<and>
   authorizedValidators confirmed_a (sender env_b) \<and>
   makeCommitment env_b 1 confirmed_a = Inl (Revert ''Commitment already exists'') \<and>
   confirmCommitment env_b 1 confirmed_a = Inl (Revert ''Already confirmed'')"
  by (simp add: makeCommitment_def confirmCommitment_def onlyAuthorized_def confirmed_a_fields
        env_b_def)

text \<open>
  Claim C2, as amended. In every state the contract reaches, resubmitting a digest that is
  already confirmed is rejected: \<open>makeCommitment\<close> and \<open>confirmCommitment\<close> both revert
  (for an authorized sender with \<open>Commitment already exists\<close> and \<open>Already confirmed\<close>),
  the contract is left exactly as it was, and so the commitment stays confirmed.
\<close>

theorem resubmission_reverts:
  assumes "reachable H c" and "confirmed (commitments c h)"
  shows "(\<exists>msg. makeCommitment e h c = Inl (Revert msg)) \<and>
    (\<exists>msg. confirmCommitment e h c = Inl (Revert msg)) \<and>
    (authorizedValidators c (sender e) \<longrightarrow>
       makeCommitment e h c = Inl (Revert ''Commitment already exists'') \<and>
       confirmCommitment e h c = Inl (Revert ''Already confirmed'')) \<and>
    transact H e (MakeCommitment h) c = c \<and>
    transact H e (ConfirmCommitment h) c = c \<and>
    confirmed (commitments (transact H e (ConfirmCommitment h) (transact H e (MakeCommitment h) c)) h)"
proof -
  from reachable_confirmed_validator [OF assms(1)] assms(2)
  have v: "validator (commitments c h) \<noteq> 0" by blast
  have m: "makeCommitment e h c =
      Inl (Revert (if authorizedValidators c (sender e) then ''Commitment already exists''
                   else ''Not authorized validator''))"
    using v by (simp add: makeCommitment_def onlyAuthorized_def)
  have k: "confirmCommitment e h c =
      Inl (Revert (if authorizedValidators c (sender e) then ''Already confirmed''
                   else ''Not authorized validator''))"
    using v assms(2) by (simp add: confirmCommitment_def onlyAuthorized_def)
  have t: "transact H e (MakeCommitment h) c = c" "transact H e (ConfirmCommitment h) c = c"
    by (simp_all add: transact_def m k)
  from m k t assms(2) show ?thesis by simp
qed

theorem resubmission_reverts_witness:
  "reachable stub_keccak confirmed_a \<and> confirmed (commitments confirmed_a 1) \<and>
   transact stub_keccak env_b (MakeCommitment 1) confirmed_a = confirmed_a \<and>
   transact stub_keccak env_b (ConfirmCommitment 1) confirmed_a = confirmed_a"
proof -
  have r: "reachable stub_keccak confirmed_a"
    unfolding confirmed_a_def deployed_a_def by (intro reachable.intros)
  have k: "confirmed (commitments confirmed_a 1)"
    by (simp add: confirmed_a_fields)
  from resubmission_reverts [OF r k, of env_b] r k show ?thesis by blast
qed


section \<open>The script registry\<close>

text \<open>What a returning script execution does to the registry, by whether the hash is new.\<close>

lemma executeLatticeScript_registry:
  assumes "executeLatticeScript H e content effect c = Inr (h, c')"
  shows "h = hashOfScript H content"
    and "events c' = events c @ [ScriptExecuted h (sender e) effect,
           StateUpdate (evolutionCount (currentState c')) (phaseVariance (currentState c'))
             (stateHash (currentState c'))]"
    and "scriptHash (latticeScripts c h) = [] \<Longrightarrow>
           scriptHashes c' = scriptHashes c @ [h] \<and>
           latticeScripts c' = (latticeScripts c)(h :=
               \<lparr> scriptHash = h, scriptContent = content, submitter = sender e,
                 executionCount = 1, latticeEffect = effect,
                 scriptTimestamp = block_timestamp e, verified = False \<rparr>)"
    and "scriptHash (latticeScripts c h) \<noteq> [] \<Longrightarrow>
           scriptHashes c' = scriptHashes c \<and>
           unat (executionCount (latticeScripts c h)) + 1 < 2 ^ 256 \<and>
           latticeScripts c' = (latticeScripts c)(h :=
                 (latticeScripts c h)\<lparr>executionCount := executionCount (latticeScripts c h) + 1,
                    latticeEffect := effect, scriptTimestamp := block_timestamp e\<rparr>)"
proof -
  from executeLatticeScript_Inr [OF assms] obtain c1 where
    h: "h = hashOfScript H content" and
    u: "updateLatticeState H e effect c1 = Inr c'" and
    ev: "events c1 = events c @ [ScriptExecuted h (sender e) effect]" and
    reg: "if scriptHash (latticeScripts c h) = []
        then scriptHashes c1 = scriptHashes c @ [h] \<and>
             latticeScripts c1 = (latticeScripts c)(h :=
               \<lparr> scriptHash = h, scriptContent = content, submitter = sender e,
                 executionCount = 1, latticeEffect = effect,
                 scriptTimestamp = block_timestamp e, verified = False \<rparr>)
        else scriptHashes c1 = scriptHashes c \<and>
             (\<exists>n. checked_add (executionCount (latticeScripts c h)) 1 = Inr n \<and>
               latticeScripts c1 = (latticeScripts c)(h :=
                 (latticeScripts c h)\<lparr>executionCount := n, latticeEffect := effect,
                                       scriptTimestamp := block_timestamp e\<rparr>))"
    by blast
  note k = updateLatticeState_Inr(7,10,12) [OF u]
  show "h = hashOfScript H content" by (rule h)
  show "events c' = events c @ [ScriptExecuted h (sender e) effect,
           StateUpdate (evolutionCount (currentState c')) (phaseVariance (currentState c'))
             (stateHash (currentState c'))]"
    using k(3) ev by simp
  show "scriptHashes c' = scriptHashes c @ [h] \<and>
           latticeScripts c' = (latticeScripts c)(h :=
               \<lparr> scriptHash = h, scriptContent = content, submitter = sender e,
                 executionCount = 1, latticeEffect = effect,
                 scriptTimestamp = block_timestamp e, verified = False \<rparr>)"
    if "scriptHash (latticeScripts c h) = []"
    using reg that k(1,2) by simp
  show "scriptHashes c' = scriptHashes c \<and>
           unat (executionCount (latticeScripts c h)) + 1 < 2 ^ 256 \<and>
           latticeScripts c' = (latticeScripts c)(h :=
                 (latticeScripts c h)\<lparr>executionCount := executionCount (latticeScripts c h) + 1,
                    latticeEffect := effect, scriptTimestamp := block_timestamp e\<rparr>)"
    if "scriptHash (latticeScripts c h) \<noteq> []"
    using reg that k(1,2) by (auto simp: checked_add_def split: if_splits)
qed

lemma exec_other_registry:
  assumes "exec H e cl c = Inr c'" and "\<forall>content effect. cl \<noteq> ExecuteLatticeScript content effect"
  shows "scriptHashes c' = scriptHashes c"
    and "latticeScripts c' = latticeScripts c"
    and "{h. \<exists>a ef. ScriptExecuted h a ef \<in> set (events c')} =
         {h. \<exists>a ef. ScriptExecuted h a ef \<in> set (events c)}"
  using assms
  by (cases cl; auto simp: authorizeValidator_def makeCommitment_def confirmCommitment_def
        emergencyPause_def emit_def Let_def dest!: onlyAuthorized_Inr split: if_splits)+

lemma exec_registry:
  assumes "exec H e cl c = Inr c'"
    and d: "distinct (scriptHashes c)"
    and m: "\<forall>h. (scriptHash (latticeScripts c h) \<noteq> []) = (h \<in> set (scriptHashes c))"
    and s: "set (scriptHashes c) = {h. \<exists>a ef. ScriptExecuted h a ef \<in> set (events c)}"
  shows "distinct (scriptHashes c') \<and>
    (\<forall>h. (scriptHash (latticeScripts c' h) \<noteq> []) = (h \<in> set (scriptHashes c'))) \<and>
    set (scriptHashes c') = {h. \<exists>a ef. ScriptExecuted h a ef \<in> set (events c')}"
proof (cases "\<forall>content effect. cl \<noteq> ExecuteLatticeScript content effect")
  case True
  from exec_other_registry [OF assms(1) True] d m s show ?thesis by simp
next
  case False
  then obtain content effect where cl: "cl = ExecuteLatticeScript content effect" by blast
  define h where "h = hashOfScript H content"
  from assms(1) cl have ex: "executeLatticeScript H e content effect c = Inr (h, c')"
    by (simp add: exec_execute_Inr h_def)
  note r = executeLatticeScript_registry [OF ex]
  have ne: "h \<noteq> []" unfolding h_def by (rule hashOfScript_nonempty)
  have evs: "{x. \<exists>a ef. ScriptExecuted x a ef \<in> set (events c')} =
      insert h {x. \<exists>a ef. ScriptExecuted x a ef \<in> set (events c)}"
    unfolding r(2) by auto
  show ?thesis
  proof (cases "scriptHash (latticeScripts c h) = []")
    case True
    with m have "h \<notin> set (scriptHashes c)" by blast
    with r(3) [OF True] d m s ne evs show ?thesis by auto
  next
    case False
    with m have "h \<in> set (scriptHashes c)" by blast
    with r(4) [OF False] d m s False evs show ?thesis by auto
  qed
qed

lemma reachable_registry:
  "reachable H c \<Longrightarrow>
     distinct (scriptHashes c) \<and>
     (\<forall>h. (scriptHash (latticeScripts c h) \<noteq> []) = (h \<in> set (scriptHashes c))) \<and>
     set (scriptHashes c) = {h. \<exists>a ef. ScriptExecuted h a ef \<in> set (events c)}"
proof (induction rule: reachable.induct)
  case (deployed e)
  show ?case by (simp add: constructor_def emptyScript_def)
next
  case (called c e cl)
  from transact_cases [of H e cl c] show ?case
  proof
    assume "transact H e cl c = c"
    with called.IH show ?thesis by simp
  next
    assume "exec H e cl c = Inr (transact H e cl c)"
    then show ?thesis using called.IH by (intro exec_registry) blast+
  qed
qed

lemma exec_registry_content:
  assumes "exec H e cl c = Inr c'"
    and k: "\<forall>h. scriptHash (latticeScripts c h) \<noteq> [] \<longrightarrow>
          scriptHash (latticeScripts c h) = h \<and>
          hashOfScript H (scriptContent (latticeScripts c h)) = h"
  shows "\<forall>h. scriptHash (latticeScripts c' h) \<noteq> [] \<longrightarrow>
          scriptHash (latticeScripts c' h) = h \<and>
          hashOfScript H (scriptContent (latticeScripts c' h)) = h"
proof (cases "\<forall>content effect. cl \<noteq> ExecuteLatticeScript content effect")
  case True
  from exec_other_registry(2) [OF assms(1) True] k show ?thesis by simp
next
  case False
  then obtain content effect where cl: "cl = ExecuteLatticeScript content effect" by blast
  define h where "h = hashOfScript H content"
  from assms(1) cl have ex: "executeLatticeScript H e content effect c = Inr (h, c')"
    by (simp add: exec_execute_Inr h_def)
  note r = executeLatticeScript_registry [OF ex]
  show ?thesis
  proof (cases "scriptHash (latticeScripts c h) = []")
    case True
    with r(3) [OF True] k h_def show ?thesis by auto
  next
    case False
    with r(4) [OF False] k show ?thesis by auto
  qed
qed

lemma reachable_registry_content:
  "reachable H c \<Longrightarrow>
     \<forall>h. scriptHash (latticeScripts c h) \<noteq> [] \<longrightarrow>
          scriptHash (latticeScripts c h) = h \<and>
          hashOfScript H (scriptContent (latticeScripts c h)) = h"
proof (induction rule: reachable.induct)
  case (deployed e)
  show ?case by (simp add: constructor_def emptyScript_def)
next
  case (called c e cl)
  from transact_cases [of H e cl c] show ?case
  proof
    assume "transact H e cl c = c"
    with called.IH show ?thesis by simp
  next
    assume "exec H e cl c = Inr (transact H e cl c)"
    then show ?thesis using called.IH by (rule exec_registry_content)
  qed
qed

text \<open>The registry after a sequence of transactions, against the scripts it submitted.\<close>

lemma run_reachable: "reachable H c \<Longrightarrow> reachable H (run H txs c)"
proof (induction txs arbitrary: c)
  case Nil
  then show ?case by simp
next
  case (Cons tx txs)
  obtain e cl where tx: "tx = (e, cl)" by (cases tx)
  from Cons.prems have "reachable H (transact H e cl c)" by (rule reachable.called)
  then show ?case unfolding tx by (simp add: Cons.IH)
qed

lemma transact_scriptHashes:
  assumes "reachable H c"
  shows "set (scriptHashes (transact H e cl c)) =
    set (scriptHashes c) \<union> hashOfScript H ` set (submits H e cl c)"
proof (cases "\<forall>content effect. cl \<noteq> ExecuteLatticeScript content effect")
  case True
  then have n: "submits H e cl c = []" by (cases cl) simp_all
  from transact_cases [of H e cl c] show ?thesis
  proof
    assume "transact H e cl c = c"
    with n show ?thesis by simp
  next
    assume "exec H e cl c = Inr (transact H e cl c)"
    from exec_other_registry(1) [OF this True] n show ?thesis by simp
  qed
next
  case False
  then obtain content effect where cl: "cl = ExecuteLatticeScript content effect" by blast
  show ?thesis
  proof (cases "executeLatticeScript H e content effect c")
    case (Inl err)
    then show ?thesis by (simp add: cl transact_def)
  next
    case (Inr r)
    obtain h c' where r: "r = (h, c')" by (cases r)
    with Inr have ex: "executeLatticeScript H e content effect c = Inr (h, c')" by simp
    note g = executeLatticeScript_registry [OF ex]
    from reachable_registry [OF assms]
    have m: "(scriptHash (latticeScripts c h) \<noteq> []) = (h \<in> set (scriptHashes c))" by blast
    have "set (scriptHashes c') = insert h (set (scriptHashes c))"
    proof (cases "scriptHash (latticeScripts c h) = []")
      case True
      with g(3) show ?thesis by simp
    next
      case False
      with g(4) m show ?thesis by auto
    qed
    with g(1) ex show ?thesis by (simp add: cl transact_def)
  qed
qed

lemma run_scriptHashes:
  "reachable H c \<Longrightarrow>
     set (scriptHashes (run H txs c)) =
       set (scriptHashes c) \<union> hashOfScript H ` set (submitted H txs c)"
proof (induction txs arbitrary: c)
  case Nil
  then show ?case by simp
next
  case (Cons tx txs)
  obtain e cl where tx: "tx = (e, cl)" by (cases tx)
  from Cons.prems have r: "reachable H (transact H e cl c)" by (rule reachable.called)
  from Cons.IH [OF r] transact_scriptHashes [OF Cons.prems, of e cl]
  show ?case unfolding tx by (auto simp: image_Un)
qed

lemma run_count:
  "getScriptCount (run H txs (constructor H deployer)) =
     card (hashOfScript H ` set (submitted H txs (constructor H deployer)))"
proof -
  have r: "reachable H (constructor H deployer)" by (rule reachable.deployed)
  from reachable_registry [OF run_reachable [OF r, of txs]]
  have "distinct (scriptHashes (run H txs (constructor H deployer)))" by blast
  from distinct_card [OF this] run_scriptHashes [OF r, of txs]
  show ?thesis by (simp add: getScriptCount_def constructor_def)
qed

lemma run_count_inj:
  assumes "inj_on (\<lambda>s. H (encode_string s)) (set (submitted H txs (constructor H deployer)))"
  shows "getScriptCount (run H txs (constructor H deployer)) =
     card (set (submitted H txs (constructor H deployer)))"
proof -
  from assms have "inj_on (hashOfScript H) (set (submitted H txs (constructor H deployer)))"
    by (simp add: inj_on_def hashOfScript_eq_iff)
  from card_image [OF this] run_count [of H txs deployer] show ?thesis by simp
qed

lemma stub_ab: "stub_keccak (encode_string ''ab'') = 195"
  by (simp add: stub_keccak_def encode_string_def)

lemma stub_cd: "stub_keccak (encode_string ''cd'') = 199"
  by (simp add: stub_keccak_def encode_string_def)

text \<open>
  No script has been executed more often than the state has been updated, so in a
  reachable state a script execution returns unless the update itself overflows.
\<close>

lemma executeLatticeScript_unat:
  assumes "executeLatticeScript H e content effect c = Inr (h, c')"
  shows "unat (evolutionCount (currentState c')) = unat (evolutionCount (currentState c)) + 1"
  using executeLatticeScript_state [OF assms] by (auto dest: updateLatticeState_unat)

lemma exec_executionCount:
  assumes "exec H e cl c = Inr c'"
    and b: "\<forall>x. unat (executionCount (latticeScripts c x)) \<le> unat (evolutionCount (currentState c))"
  shows "\<forall>x. unat (executionCount (latticeScripts c' x)) \<le> unat (evolutionCount (currentState c'))"
proof (cases "\<forall>content effect. cl \<noteq> ExecuteLatticeScript content effect")
  case True
  from exec_other_registry(2) [OF assms(1) True] exec_other_state(1) [OF assms(1) True] b
  show ?thesis by simp
next
  case False
  then obtain content effect where cl: "cl = ExecuteLatticeScript content effect" by blast
  define h where "h = hashOfScript H content"
  from assms(1) cl have ex: "executeLatticeScript H e content effect c = Inr (h, c')"
    by (simp add: exec_execute_Inr h_def)
  note g = executeLatticeScript_registry [OF ex]
  note n = executeLatticeScript_unat [OF ex]
  show ?thesis
  proof (cases "scriptHash (latticeScripts c h) = []")
    case True
    from g(3) [OF True] have ls: "latticeScripts c' = (latticeScripts c)(h :=
               \<lparr> scriptHash = h, scriptContent = content, submitter = sender e,
                 executionCount = 1, latticeEffect = effect,
                 scriptTimestamp = block_timestamp e, verified = False \<rparr>)"
      by blast
    show ?thesis
    proof
      fix x
      from b have "unat (executionCount (latticeScripts c x)) \<le> unat (evolutionCount (currentState c))"
        by blast
      with n show "unat (executionCount (latticeScripts c' x)) \<le> unat (evolutionCount (currentState c'))"
        by (cases "x = h") (simp_all add: ls)
    qed
  next
    case False
    from g(4) [OF False] have ls: "latticeScripts c' = (latticeScripts c)(h :=
          (latticeScripts c h)\<lparr>executionCount := executionCount (latticeScripts c h) + 1,
             latticeEffect := effect, scriptTimestamp := block_timestamp e\<rparr>)"
      and ov: "unat (executionCount (latticeScripts c h)) + 1 < 2 ^ 256"
      by blast+
    from ov have "unat (executionCount (latticeScripts c h) + 1) =
        unat (executionCount (latticeScripts c h)) + 1"
      by (simp add: unat_word_ariths)
    then have inc: "unat (executionCount (latticeScripts c h) + 1) \<le>
        unat (evolutionCount (currentState c'))"
      using b n by simp
    show ?thesis
    proof
      fix x
      from b have "unat (executionCount (latticeScripts c x)) \<le> unat (evolutionCount (currentState c))"
        by blast
      with n inc show "unat (executionCount (latticeScripts c' x)) \<le> unat (evolutionCount (currentState c'))"
        by (cases "x = h") (simp_all add: ls)
    qed
  qed
qed

lemma reachable_executionCount:
  "reachable H c \<Longrightarrow>
     \<forall>x. unat (executionCount (latticeScripts c x)) \<le> unat (evolutionCount (currentState c))"
proof (induction rule: reachable.induct)
  case (deployed e)
  show ?case by (simp add: constructor_def emptyScript_def)
next
  case (called c e cl)
  from transact_cases [of H e cl c] show ?case
  proof
    assume "transact H e cl c = c"
    with called.IH show ?thesis by simp
  next
    assume "exec H e cl c = Inr (transact H e cl c)"
    then show ?thesis using called.IH by (rule exec_executionCount)
  qed
qed

lemma reachable_execute_ok:
  assumes "reachable H c"
    and "unat (evolutionCount (currentState c)) + 1 < 2 ^ 256"
    and "unat effect * 1618034 < 2 ^ 255"
  shows "\<exists>c'. executeLatticeScript H e content effect c = Inr (hashOfScript H content, c')"
proof (rule executeLatticeScript_ok)
  have p: "(2::nat) ^ 256 = 2 * 2 ^ 255" by simp
  show "unat (evolutionCount (currentState c)) + 1 < 2 ^ 256" by (rule assms(2))
  show "unat effect * 1618034 < 2 ^ 256" using assms(3) unfolding p by linarith
  have "unat effect * 1618034 div 1000000 \<le> unat effect * 1618034" by (rule div_le_dividend)
  moreover have "unat (phaseVariance (currentState c)) < 2000000"
    using assms(1) by (rule reachable_phaseVariance)
  moreover have "(2000000::nat) < 2 ^ 255" by simp
  ultimately show "unat (phaseVariance (currentState c)) + unat effect * 1618034 div 1000000 < 2 ^ 256"
    using assms(3) unfolding p by linarith
  from reachable_executionCount [OF assms(1)] assms(2)
  show "scriptHash (latticeScripts c (hashOfScript H content)) \<noteq> [] \<longrightarrow>
         unat (executionCount (latticeScripts c (hashOfScript H content))) + 1 < 2 ^ 256"
    by (auto intro: le_less_trans)
qed

text \<open>
  Claim C9. In every state the contract reaches, \<open>scriptHashes\<close> has no duplicates and
  holds exactly the hashes for which a \<open>ScriptExecuted\<close> event was ever logged, so
  \<open>getScriptCount\<close> is the number of distinct script hashes ever executed; each
  registered hash is the hash of the content stored under it. Run from the deployed
  contract, any sequence of transactions leaves \<open>getScriptCount\<close> equal to the number of
  distinct hashes of the scripts submitted, and \<open>toHexString\<close> loses nothing of the
  hash: two scripts get the same registry key only if \<open>keccak256\<close> collides on them.
  So \<open>getScriptCount\<close> is the number of distinct scripts submitted whenever the hash
  has no collision among them. A returning
  execution of a script whose hash is registered appends nothing, raises that script's
  \<open>executionCount\<close> by exactly 1 and stores the new effect and the block's time; one whose
  hash is new appends the hash once, with \<open>executionCount\<close> 1.
\<close>

theorem scriptHashes_distinct:
  assumes "reachable H c"
  shows "distinct (scriptHashes c) \<and>
    set (scriptHashes c) = {h. \<exists>a ef. ScriptExecuted h a ef \<in> set (events c)} \<and>
    getScriptCount c = card {h. \<exists>a ef. ScriptExecuted h a ef \<in> set (events c)} \<and>
    (\<forall>g \<in> set (scriptHashes c).
       scriptHash (latticeScripts c g) = g \<and>
       hashOfScript H (scriptContent (latticeScripts c g)) = g) \<and>
    (executeLatticeScript H e content effect c = Inr (h, c') \<longrightarrow>
       h = hashOfScript H content \<and>
       (h \<in> set (scriptHashes c) \<longrightarrow>
          scriptHashes c' = scriptHashes c \<and>
          unat (executionCount (latticeScripts c' h)) =
            unat (executionCount (latticeScripts c h)) + 1 \<and>
          latticeEffect (latticeScripts c' h) = effect \<and>
          scriptTimestamp (latticeScripts c' h) = block_timestamp e) \<and>
       (h \<notin> set (scriptHashes c) \<longrightarrow>
          scriptHashes c' = scriptHashes c @ [h] \<and>
          executionCount (latticeScripts c' h) = 1 \<and>
          latticeEffect (latticeScripts c' h) = effect \<and>
          scriptTimestamp (latticeScripts c' h) = block_timestamp e)) \<and>
    set (scriptHashes (run H txs c)) =
      set (scriptHashes c) \<union> hashOfScript H ` set (submitted H txs c) \<and>
    getScriptCount (run H txs (constructor H deployer)) =
      card (hashOfScript H ` set (submitted H txs (constructor H deployer))) \<and>
    (inj_on (\<lambda>s. H (encode_string s)) (set (submitted H txs (constructor H deployer))) \<longrightarrow>
       getScriptCount (run H txs (constructor H deployer)) =
         card (set (submitted H txs (constructor H deployer)))) \<and>
    (hashOfScript H s1 = hashOfScript H s2 \<longleftrightarrow> H (encode_string s1) = H (encode_string s2))"
proof -
  note inv = reachable_registry [OF assms]
  from inv have d: "distinct (scriptHashes c)"
    and m: "\<And>h. (scriptHash (latticeScripts c h) \<noteq> []) = (h \<in> set (scriptHashes c))"
    and s: "set (scriptHashes c) = {h. \<exists>a ef. ScriptExecuted h a ef \<in> set (events c)}"
    by blast+
  have n: "getScriptCount c = card {h. \<exists>a ef. ScriptExecuted h a ef \<in> set (events c)}"
    using distinct_card [OF d] s by (simp add: getScriptCount_def)
  have x: "h = hashOfScript H content \<and>
       (h \<in> set (scriptHashes c) \<longrightarrow>
          scriptHashes c' = scriptHashes c \<and>
          unat (executionCount (latticeScripts c' h)) =
            unat (executionCount (latticeScripts c h)) + 1 \<and>
          latticeEffect (latticeScripts c' h) = effect \<and>
          scriptTimestamp (latticeScripts c' h) = block_timestamp e) \<and>
       (h \<notin> set (scriptHashes c) \<longrightarrow>
          scriptHashes c' = scriptHashes c @ [h] \<and>
          executionCount (latticeScripts c' h) = 1 \<and>
          latticeEffect (latticeScripts c' h) = effect \<and>
          scriptTimestamp (latticeScripts c' h) = block_timestamp e)"
    if ex: "executeLatticeScript H e content effect c = Inr (h, c')"
  proof -
    note r = executeLatticeScript_registry [OF ex]
    show ?thesis
    proof (cases "scriptHash (latticeScripts c h) = []")
      case True
      with m have "h \<notin> set (scriptHashes c)" by blast
      with r(1) r(3) [OF True] show ?thesis by simp
    next
      case False
      with m have "h \<in> set (scriptHashes c)" by blast
      with r(1) r(4) [OF False] show ?thesis by (simp add: unat_word_ariths)
    qed
  qed
  have g: "\<forall>g \<in> set (scriptHashes c).
       scriptHash (latticeScripts c g) = g \<and>
       hashOfScript H (scriptContent (latticeScripts c g)) = g"
    using m reachable_registry_content [OF assms] by blast
  note y = run_scriptHashes [OF assms, of txs] run_count [of H txs deployer]
    hashOfScript_eq_iff [of H s1 s2]
  have z: "getScriptCount (run H txs (constructor H deployer)) =
         card (set (submitted H txs (constructor H deployer)))"
    if "inj_on (\<lambda>s. H (encode_string s)) (set (submitted H txs (constructor H deployer)))"
    using that by (rule run_count_inj)
  from d s n g x have "distinct (scriptHashes c) \<and>
    set (scriptHashes c) = {h. \<exists>a ef. ScriptExecuted h a ef \<in> set (events c)} \<and>
    getScriptCount c = card {h. \<exists>a ef. ScriptExecuted h a ef \<in> set (events c)} \<and>
    (\<forall>g \<in> set (scriptHashes c).
       scriptHash (latticeScripts c g) = g \<and>
       hashOfScript H (scriptContent (latticeScripts c g)) = g) \<and>
    (executeLatticeScript H e content effect c = Inr (h, c') \<longrightarrow>
       h = hashOfScript H content \<and>
       (h \<in> set (scriptHashes c) \<longrightarrow>
          scriptHashes c' = scriptHashes c \<and>
          unat (executionCount (latticeScripts c' h)) =
            unat (executionCount (latticeScripts c h)) + 1 \<and>
          latticeEffect (latticeScripts c' h) = effect \<and>
          scriptTimestamp (latticeScripts c' h) = block_timestamp e) \<and>
       (h \<notin> set (scriptHashes c) \<longrightarrow>
          scriptHashes c' = scriptHashes c @ [h] \<and>
          executionCount (latticeScripts c' h) = 1 \<and>
          latticeEffect (latticeScripts c' h) = effect \<and>
          scriptTimestamp (latticeScripts c' h) = block_timestamp e))"
    by blast
  with y z show ?thesis by blast
qed

theorem scriptHashes_distinct_witness:
  "(getScriptCount
     (transact stub_keccak env_b (ExecuteLatticeScript ''tape'' 5)
       (transact stub_keccak env_c (ExecuteLatticeScript ''tape'' 3) deployed_a)) = 1 \<and>
   unat (executionCount (latticeScripts
     (transact stub_keccak env_b (ExecuteLatticeScript ''tape'' 5)
       (transact stub_keccak env_c (ExecuteLatticeScript ''tape'' 3) deployed_a))
     (hashOfScript stub_keccak ''tape''))) = 2) \<and>
   submitted stub_keccak
     [(env_c, ExecuteLatticeScript ''ab'' 3), (env_b, ExecuteLatticeScript ''cd'' 5),
      (env_b, ExecuteLatticeScript ''ab'' 1)] deployed_a = [''ab'', ''cd'', ''ab''] \<and>
   getScriptCount (run stub_keccak
     [(env_c, ExecuteLatticeScript ''ab'' 3), (env_b, ExecuteLatticeScript ''cd'' 5),
      (env_b, ExecuteLatticeScript ''ab'' 1)] deployed_a) = 2"
proof -
  have A: "getScriptCount
     (transact stub_keccak env_b (ExecuteLatticeScript ''tape'' 5)
       (transact stub_keccak env_c (ExecuteLatticeScript ''tape'' 3) deployed_a)) = 1 \<and>
   unat (executionCount (latticeScripts
     (transact stub_keccak env_b (ExecuteLatticeScript ''tape'' 5)
       (transact stub_keccak env_c (ExecuteLatticeScript ''tape'' 3) deployed_a))
     (hashOfScript stub_keccak ''tape''))) = 2"
  proof -
    define h where "h = hashOfScript stub_keccak ''tape''"
    obtain c1 where ex1: "executeLatticeScript stub_keccak env_c ''tape'' 3 deployed_a = Inr (h, c1)"
      using deployed_a_execute unfolding h_def by blast
    then have t1: "transact stub_keccak env_c (ExecuteLatticeScript ''tape'' 3) deployed_a = c1"
      by (simp add: transact_def)
    have r0: "reachable stub_keccak deployed_a"
      unfolding deployed_a_def by (rule reachable.deployed)
    have r1: "reachable stub_keccak c1"
      using reachable.called [OF r0, of env_c "ExecuteLatticeScript ''tape'' 3"] t1 by simp
    have new: "h \<notin> set (scriptHashes deployed_a)"
      by (simp add: deployed_a_def constructor_def)
    have sd: "scriptHashes deployed_a = []"
      by (simp add: deployed_a_def constructor_def)
    from scriptHashes_distinct [OF r0, of env_c "''tape''" 3 h c1] ex1 new
    have "scriptHashes c1 = scriptHashes deployed_a @ [h] \<and> executionCount (latticeScripts c1 h) = 1"
      by blast
    then have s1: "scriptHashes c1 = [h]" and n1: "executionCount (latticeScripts c1 h) = 1"
      unfolding sd by simp_all
    from executeLatticeScript_state [OF ex1] obtain c0 where
      u: "updateLatticeState stub_keccak env_c 3 c0 = Inr c1" and
      cs: "currentState c0 = currentState deployed_a"
      by blast
    have ec: "unat (evolutionCount (currentState c1)) = 1"
      using updateLatticeState_unat [OF u] cs
      by (simp add: deployed_a_def constructor_def genesisState_def)
    have pv: "unat (phaseVariance (currentState c1)) < 2000000"
      using u by (rule updateLatticeState_bound)
    have "\<exists>c2. executeLatticeScript stub_keccak env_b ''tape'' 5 c1
        = Inr (hashOfScript stub_keccak ''tape'', c2)"
      using ec pv n1 by (intro executeLatticeScript_ok) (simp_all add: h_def [symmetric])
    then obtain c2 where ex2: "executeLatticeScript stub_keccak env_b ''tape'' 5 c1 = Inr (h, c2)"
      unfolding h_def by blast
    then have t2: "transact stub_keccak env_b (ExecuteLatticeScript ''tape'' 5) c1 = c2"
      by (simp add: transact_def)
    have r2: "reachable stub_keccak c2"
      using reachable.called [OF r1, of env_b "ExecuteLatticeScript ''tape'' 5"] t2 by simp
    have old: "h \<in> set (scriptHashes c1)"
      unfolding s1 by simp
    from scriptHashes_distinct [OF r1, of env_b "''tape''" 5 h c2] ex2 old
    have "scriptHashes c2 = scriptHashes c1 \<and>
        unat (executionCount (latticeScripts c2 h)) = unat (executionCount (latticeScripts c1 h)) + 1"
      by blast
    then have s2: "scriptHashes c2 = [h]" and n2: "unat (executionCount (latticeScripts c2 h)) = 2"
      unfolding s1 n1 by simp_all
    show ?thesis
      unfolding t1 t2 h_def [symmetric] using s2 n2 by (simp add: getScriptCount_def)
  qed
  define txs where "txs = [(env_c, ExecuteLatticeScript ''ab'' 3),
    (env_b, ExecuteLatticeScript ''cd'' 5), (env_b, ExecuteLatticeScript ''ab'' 1)]"
  have r0: "reachable stub_keccak deployed_a"
    unfolding deployed_a_def by (rule reachable.deployed)
  have e0: "unat (evolutionCount (currentState deployed_a)) = 0"
    by (simp add: deployed_a_def constructor_def genesisState_def)
  obtain c1 where ex1: "executeLatticeScript stub_keccak env_c ''ab'' 3 deployed_a =
      Inr (hashOfScript stub_keccak ''ab'', c1)"
    using reachable_execute_ok [OF r0, of 3 env_c "''ab''"] e0 by auto
  then have t1: "transact stub_keccak env_c (ExecuteLatticeScript ''ab'' 3) deployed_a = c1"
    by (simp add: transact_def)
  have r1: "reachable stub_keccak c1"
    using reachable.called [OF r0, of env_c "ExecuteLatticeScript ''ab'' 3"] t1 by simp
  have e1: "unat (evolutionCount (currentState c1)) = 1"
    using executeLatticeScript_unat [OF ex1] e0 by simp
  obtain c2 where ex2: "executeLatticeScript stub_keccak env_b ''cd'' 5 c1 =
      Inr (hashOfScript stub_keccak ''cd'', c2)"
    using reachable_execute_ok [OF r1, of 5 env_b "''cd''"] e1 by auto
  then have t2: "transact stub_keccak env_b (ExecuteLatticeScript ''cd'' 5) c1 = c2"
    by (simp add: transact_def)
  have r2: "reachable stub_keccak c2"
    using reachable.called [OF r1, of env_b "ExecuteLatticeScript ''cd'' 5"] t2 by simp
  have e2: "unat (evolutionCount (currentState c2)) = 2"
    using executeLatticeScript_unat [OF ex2] e1 by simp
  obtain c3 where ex3: "executeLatticeScript stub_keccak env_b ''ab'' 1 c2 =
      Inr (hashOfScript stub_keccak ''ab'', c3)"
    using reachable_execute_ok [OF r2, of 1 env_b "''ab''"] e2 by auto
  have sub: "submitted stub_keccak txs deployed_a = [''ab'', ''cd'', ''ab'']"
    by (simp add: txs_def ex1 t1 ex2 t2 ex3)
  have inj: "inj_on (\<lambda>s. stub_keccak (encode_string s))
      (set (submitted stub_keccak txs (constructor stub_keccak env_a)))"
    unfolding deployed_a_def [symmetric] sub by (auto simp: inj_on_def stub_ab stub_cd)
  from scriptHashes_distinct [OF r0, where txs = txs and deployer = env_a] inj
  have "getScriptCount (run stub_keccak txs (constructor stub_keccak env_a)) =
      card (set (submitted stub_keccak txs (constructor stub_keccak env_a)))"
    by blast
  moreover have "set [''ab'', ''cd'', ''ab''] = {''ab'', ''cd''}"
    by auto
  then have "card (set [''ab'', ''cd'', ''ab'']) = 2"
    by simp
  ultimately have B: "getScriptCount (run stub_keccak txs deployed_a) = 2"
    unfolding deployed_a_def [symmetric] sub by (simp only:)
  from A sub B show ?thesis unfolding txs_def by blast
qed

section \<open>The state hash\<close>

lemma upt32:
  "[0..<32] = [0, 1, 2, 3, 4, 5, 6, 7, 8, 9, 10, 11, 12, 13, 14, 15, 16, 17, 18, 19, 20, 21,
               22, 23, 24, 25, 26, 27, 28, 29, 30, 31]"
  by code_simp

lemma stub_keccak_append:
  "stub_keccak (encode_uint256 a @ encode_uint256 b @ encode_uint256 c @ encode_uint256 d) =
     word_of_nat (sum_list (map unat (encode_uint256 a)) + sum_list (map unat (encode_uint256 b)) +
                  sum_list (map unat (encode_uint256 c)) + sum_list (map unat (encode_uint256 d)))"
  by (simp add: stub_keccak_def add.assoc)

lemma byte_sums:
  "sum_list (map unat (encode_uint256 1)) = 1"
  "sum_list (map unat (encode_uint256 2)) = 2"
  "sum_list (map unat (encode_uint256 1000)) = 235"
  "sum_list (map unat (encode_uint256 2000)) = 215"
  "sum_list (map unat (encode_uint256 1123584)) = 54"
  by (simp_all add: encode_uint256_def upt32 byte_at_def)

lemma deployed_a_update:
  assumes "updateLatticeState stub_keccak e 3 deployed_a = Inr c'"
  shows "evolutionCount (currentState c') = 1"
    and "phaseVariance (currentState c') = 1123584"
    and "stateHash (currentState c') =
           stub_keccak (encode_uint256 1 @ encode_uint256 1123584 @
                        encode_uint256 (block_timestamp e) @ encode_uint256 (block_difficulty e))"
proof -
  show 1: "evolutionCount (currentState c') = 1"
    using updateLatticeState_Inr(1) [OF assms]
    by (simp add: deployed_a_def constructor_def genesisState_def)
  show 2: "phaseVariance (currentState c') = 1123584"
    using updateLatticeState_Inr(3) [OF assms]
    by (simp add: deployed_a_def constructor_def genesisState_def goldenRatio_def)
  show "stateHash (currentState c') =
           stub_keccak (encode_uint256 1 @ encode_uint256 1123584 @
                        encode_uint256 (block_timestamp e) @ encode_uint256 (block_difficulty e))"
    using updateLatticeState_Inr(4) [OF assms] unfolding 1 2 .
qed

lemma deployed_a_update_ok: "\<exists>c'. updateLatticeState stub_keccak e 3 deployed_a = Inr c'"
  by (rule updateLatticeState_ok)
     (simp_all add: deployed_a_def constructor_def genesisState_def)

text \<open>
  Claim C3 says that the state hash depends on the canonical state alone, and not on the
  time or any other input of the environment. The contract hashes the block's timestamp
  and difficulty along with \<open>evolutionCount\<close> and \<open>phaseVariance\<close>. The same update
  (effect 3) of the same freshly deployed state, once in a block of time 1000 and once in
  a block of time 2000, gives the same \<open>evolutionCount\<close> 1 and \<open>phaseVariance\<close> 1123584;
  the byte strings that are hashed differ, and so do the state hashes under the stand-in hash.
\<close>

theorem stateHash_depends_on_block_counterexample:
  "encode_uint256 1 @ encode_uint256 1123584 @
     encode_uint256 (block_timestamp env_a) @ encode_uint256 (block_difficulty env_a) \<noteq>
   encode_uint256 1 @ encode_uint256 1123584 @
     encode_uint256 (block_timestamp env_b) @ encode_uint256 (block_difficulty env_b) \<and>
   map_sum id (\<lambda>c. (evolutionCount (currentState c), phaseVariance (currentState c),
                     stateHash (currentState c)))
     (updateLatticeState stub_keccak env_a 3 deployed_a) = Inr (1, 1123584, 292) \<and>
   map_sum id (\<lambda>c. (evolutionCount (currentState c), phaseVariance (currentState c),
                     stateHash (currentState c)))
     (updateLatticeState stub_keccak env_b 3 deployed_a) = Inr (1, 1123584, 272)"
proof -
  have "sum_list (map unat (encode_uint256 1000)) \<noteq> sum_list (map unat (encode_uint256 2000))"
    by (simp add: byte_sums)
  then have "encode_uint256 1000 \<noteq> encode_uint256 2000"
    by auto
  then have 1: "encode_uint256 1 @ encode_uint256 1123584 @
     encode_uint256 (block_timestamp env_a) @ encode_uint256 (block_difficulty env_a) \<noteq>
   encode_uint256 1 @ encode_uint256 1123584 @
     encode_uint256 (block_timestamp env_b) @ encode_uint256 (block_difficulty env_b)"
    by (simp add: env_a_def env_b_def encode_uint256_def)
  obtain ca where a: "updateLatticeState stub_keccak env_a 3 deployed_a = Inr ca"
    using deployed_a_update_ok by blast
  obtain cb where b: "updateLatticeState stub_keccak env_b 3 deployed_a = Inr cb"
    using deployed_a_update_ok by blast
  have 2: "stateHash (currentState ca) = 292"
    unfolding deployed_a_update(3) [OF a] stub_keccak_append
    by (simp add: env_a_def byte_sums)
  have 3: "stateHash (currentState cb) = 272"
    unfolding deployed_a_update(3) [OF b] stub_keccak_append
    by (simp add: env_b_def byte_sums)
  show ?thesis
    using 1 2 3 deployed_a_update(1,2) [OF a] deployed_a_update(1,2) [OF b]
    by (simp add: a b)
qed

text \<open>
  Claim C3, as amended. The state hash is a function of the updated \<open>evolutionCount\<close> and
  \<open>phaseVariance\<close> and of the block's timestamp and difficulty, and of nothing else: two
  script executions with the same effect, from states that agree on \<open>evolutionCount\<close> and
  \<open>phaseVariance\<close>, in blocks that agree on timestamp and difficulty, end with the same
  \<open>evolutionCount\<close>, \<open>phaseVariance\<close> and \<open>stateHash\<close>, whatever the senders, the
  scripts and the rest of the two contract states are.
\<close>

theorem stateHash_determined:
  assumes "executeLatticeScript H e1 content1 effect c1 = Inr (h1, c1')"
    and "executeLatticeScript H e2 content2 effect c2 = Inr (h2, c2')"
    and "evolutionCount (currentState c1) = evolutionCount (currentState c2)"
    and "phaseVariance (currentState c1) = phaseVariance (currentState c2)"
    and "block_timestamp e1 = block_timestamp e2"
    and "block_difficulty e1 = block_difficulty e2"
  shows "evolutionCount (currentState c1') = evolutionCount (currentState c2') \<and>
    phaseVariance (currentState c1') = phaseVariance (currentState c2') \<and>
    stateHash (currentState c1') = stateHash (currentState c2') \<and>
    stateHash (currentState c1') =
      H (encode_uint256 (evolutionCount (currentState c1) + 1) @
         encode_uint256 ((phaseVariance (currentState c1) + effect * goldenRatio div 1000000)
                          mod 2000000) @
         encode_uint256 (block_timestamp e1) @ encode_uint256 (block_difficulty e1))"
proof -
  from executeLatticeScript_state [OF assms(1)] obtain d1 where
    u1: "updateLatticeState H e1 effect d1 = Inr c1'" and s1: "currentState d1 = currentState c1"
    by blast
  from executeLatticeScript_state [OF assms(2)] obtain d2 where
    u2: "updateLatticeState H e2 effect d2 = Inr c2'" and s2: "currentState d2 = currentState c2"
    by blast
  note a = updateLatticeState_Inr(1,3,4) [OF u1, unfolded s1]
  note b = updateLatticeState_Inr(1,3,4) [OF u2, unfolded s2]
  have ec: "evolutionCount (currentState c1') = evolutionCount (currentState c2')"
    using a(1) b(1) assms(3) by simp
  have pv: "phaseVariance (currentState c1') = phaseVariance (currentState c2')"
    using a(2) b(2) assms(4) by simp
  have sh: "stateHash (currentState c1') = stateHash (currentState c2')"
    using a(3) b(3) ec pv assms(5,6) by simp
  have f: "stateHash (currentState c1') =
      H (encode_uint256 (evolutionCount (currentState c1) + 1) @
         encode_uint256 ((phaseVariance (currentState c1) + effect * goldenRatio div 1000000)
                          mod 2000000) @
         encode_uint256 (block_timestamp e1) @ encode_uint256 (block_difficulty e1))"
    using a by simp
  from ec pv sh f show ?thesis by blast
qed

theorem stateHash_determined_witness:
  "\<exists>c1' c2'.
     executeLatticeScript stub_keccak env_c ''tape'' 3 deployed_a =
       Inr (hashOfScript stub_keccak ''tape'', c1') \<and>
     executeLatticeScript stub_keccak env_c ''other tape'' 3 confirmed_a =
       Inr (hashOfScript stub_keccak ''other tape'', c2') \<and>
     stateHash (currentState c1') = stateHash (currentState c2')"
proof -
  obtain c1' where 1: "executeLatticeScript stub_keccak env_c ''tape'' 3 deployed_a =
       Inr (hashOfScript stub_keccak ''tape'', c1')"
    using deployed_a_execute by blast
  obtain c2' where 2: "executeLatticeScript stub_keccak env_c ''other tape'' 3 confirmed_a =
       Inr (hashOfScript stub_keccak ''other tape'', c2')"
    using confirmed_a_execute by blast
  have 3: "evolutionCount (currentState deployed_a) = evolutionCount (currentState confirmed_a)"
    by (simp add: deployed_a_def constructor_def confirmed_a_fields genesisState_def)
  have 4: "phaseVariance (currentState deployed_a) = phaseVariance (currentState confirmed_a)"
    by (simp add: deployed_a_def constructor_def confirmed_a_fields genesisState_def)
  from stateHash_determined [OF 1 2 3 4] 1 2 show ?thesis by blast
qed


section \<open>The metrics history\<close>

lemma update_tick_Inr:
  assumes "update_tick parse inp h = Inr h'"
  shows "\<exists>m. assign_timestamp (getHDGLMetrics parse (fst inp)) (JNum (snd inp)) = Inr m \<and>
    h' = (if length h < MAX_HISTORY then h @ [m] else tl (h @ [m]))"
  using assms by (auto simp: update_tick_def Let_def split: sum.splits)

lemma update_tick_length:
  assumes "update_tick parse inp h = Inr h'" and "length h \<le> MAX_HISTORY"
  shows "length h' \<le> MAX_HISTORY"
  using update_tick_Inr [OF assms(1)] assms(2) by auto

lemma update_ticks_recorded:
  assumes "update_ticks parse inps h = Inr h'" and "length h \<le> MAX_HISTORY"
  shows "\<exists>ms. recorded parse inps = Inr ms \<and>
    h' = drop (length (h @ ms) - MAX_HISTORY) (h @ ms)"
  using assms
proof (induction inps arbitrary: h)
  case Nil
  then show ?case by simp
next
  case (Cons inp inps)
  from Cons.prems(1) obtain h1 where
    t: "update_tick parse inp h = Inr h1" and r: "update_ticks parse inps h1 = Inr h'"
    by (auto split: sum.splits)
  from update_tick_Inr [OF t] obtain m where
    m: "assign_timestamp (getHDGLMetrics parse (fst inp)) (JNum (snd inp)) = Inr m" and
    h1: "h1 = (if length h < MAX_HISTORY then h @ [m] else tl (h @ [m]))"
    by blast
  from Cons.IH [OF r update_tick_length [OF t Cons.prems(2)]] obtain ms where
    ms: "recorded parse inps = Inr ms" and
    h': "h' = drop (length (h1 @ ms) - MAX_HISTORY) (h1 @ ms)"
    by blast
  have rec: "recorded parse (inp # inps) = Inr (m # ms)"
    by (simp add: m ms)
  have "h' = drop (length (h @ m # ms) - MAX_HISTORY) (h @ m # ms)"
  proof (cases "length h < MAX_HISTORY")
    case True
    with h1 h' show ?thesis by simp
  next
    case False
    with Cons.prems(2) have l: "length h = MAX_HISTORY" by simp
    from False h1 have "h1 @ ms = tl (h @ m # ms)" by (cases h) simp_all
    moreover from False h1 l have "length (h1 @ ms) - MAX_HISTORY = length ms" by simp
    ultimately have "h' = drop (length ms) (tl (h @ m # ms))"
      using h' by (simp only:)
    also have "\<dots> = drop (Suc (length ms)) (h @ m # ms)"
      by (simp only: drop_Suc)
    finally show ?thesis using l by simp
  qed
  with rec show ?case by blast
qed

text \<open>
  Claim C8. A tick of the update loop that completes, on a history of at most
  \<open>MAX_HISTORY\<close> entries, leaves at most \<open>MAX_HISTORY\<close> entries: below the bound it
  appends the new entry, at the bound it appends the new entry and drops exactly the
  oldest one. Started on the empty history, any number of ticks leaves the last
  \<open>MAX_HISTORY\<close> recorded entries, in the order they were recorded.
\<close>

theorem metricsHistory_bounded:
  "MAX_HISTORY = 1000 \<and>
   (update_tick parse inp h = Inr h' \<and> length h \<le> MAX_HISTORY \<longrightarrow>
      length h' \<le> MAX_HISTORY \<and>
      (\<exists>m. assign_timestamp (getHDGLMetrics parse (fst inp)) (JNum (snd inp)) = Inr m \<and>
           (length h < MAX_HISTORY \<longrightarrow> h' = h @ [m]) \<and>
           (length h = MAX_HISTORY \<longrightarrow> h' = tl h @ [m]))) \<and>
   (update_ticks parse inps [] = Inr hist \<longrightarrow>
      length hist \<le> MAX_HISTORY \<and>
      (\<exists>ms. recorded parse inps = Inr ms \<and> length ms = length inps \<and>
            hist = drop (length ms - MAX_HISTORY) ms))"
proof -
  have 1: "length h' \<le> MAX_HISTORY \<and>
      (\<exists>m. assign_timestamp (getHDGLMetrics parse (fst inp)) (JNum (snd inp)) = Inr m \<and>
           (length h < MAX_HISTORY \<longrightarrow> h' = h @ [m]) \<and>
           (length h = MAX_HISTORY \<longrightarrow> h' = tl h @ [m]))"
    if t: "update_tick parse inp h = Inr h'" and l: "length h \<le> MAX_HISTORY"
  proof -
    from update_tick_Inr [OF t] obtain m where
      m: "assign_timestamp (getHDGLMetrics parse (fst inp)) (JNum (snd inp)) = Inr m" and
      h': "h' = (if length h < MAX_HISTORY then h @ [m] else tl (h @ [m]))"
      by blast
    have "h' = tl h @ [m]" if "length h = MAX_HISTORY"
    proof -
      from that have "h \<noteq> []" by (auto simp: MAX_HISTORY_def)
      with h' that show ?thesis by simp
    qed
    with m h' update_tick_length [OF t l] show ?thesis by auto
  qed
  have 2: "length hist \<le> MAX_HISTORY \<and>
      (\<exists>ms. recorded parse inps = Inr ms \<and> length ms = length inps \<and>
            hist = drop (length ms - MAX_HISTORY) ms)"
    if r: "update_ticks parse inps [] = Inr hist"
  proof -
    from update_ticks_recorded [OF r] obtain ms where
      ms: "recorded parse inps = Inr ms" and h: "hist = drop (length ms - MAX_HISTORY) ms"
      by auto
    have "length ms' = length inps'" if "recorded parse inps' = Inr ms'" for inps' ms'
      using that by (induction inps' arbitrary: ms') (auto split: sum.splits)
    with ms h show ?thesis by auto
  qed
  have 0: "MAX_HISTORY = 1000" by (simp add: MAX_HISTORY_def)
  from 0 1 2 show ?thesis by blast
qed

theorem metricsHistory_bounded_witness:
  "update_ticks parse_literal [(Map.empty, 10), (Map.empty(''/app/data/metrics.json'' \<mapsto> ''true''), 20)] []
     = Inr [JObj [(''timestamp'', JNum 10)], JBool True] \<and>
   (\<exists>m. update_tick parse_literal (Map.empty, 30) (replicate 1000 JNull) =
           Inr (tl (replicate 1000 JNull) @ [m]))"
proof -
  have a: "update_ticks parse_literal
      [(Map.empty, 10), (Map.empty(''/app/data/metrics.json'' \<mapsto> ''true''), 20)] []
     = Inr [JObj [(''timestamp'', JNum 10)], JBool True]"
    by (simp add: update_tick_def getHDGLMetrics_def parse_literal_def set_prop_def
          MAX_HISTORY_def Let_def)
  have "\<exists>h'. update_tick parse_literal (Map.empty, 30) (replicate 1000 JNull) = Inr h'"
    by (simp add: update_tick_def getHDGLMetrics_def Let_def)
  then obtain h' where t: "update_tick parse_literal (Map.empty, 30) (replicate 1000 JNull) = Inr h'"
    by blast
  have l: "length (replicate 1000 JNull) \<le> MAX_HISTORY" "length (replicate 1000 JNull) = MAX_HISTORY"
    by (simp_all add: MAX_HISTORY_def)
  from metricsHistory_bounded [of parse_literal "(Map.empty, 30)" "replicate 1000 JNull" h'] t l
  have "\<exists>m. h' = tl (replicate 1000 JNull) @ [m]"
    by blast
  with a t show ?thesis by auto
qed


section \<open>Reading the persisted lattice state\<close>

lemma truthy_defaultState: "truthy defaultState"
  by (simp add: defaultState_def)

text \<open>
  Claim C4 says that a read which meets malformed content fails for that call, leaves the
  stored state unchanged and reports the error. The code does the opposite whenever the
  file can be written: the parser's error lands in the same \<open>catch\<close> as a missing file,
  the stored content is overwritten by the default state, the default state is returned,
  and the handler of \<open>/api/state\<close> answers 200 with it. Only when that write fails as
  well is the stored content kept and the error reported (status 500).
\<close>

theorem readLatticeState_overwrites_malformed:
  assumes "fs statePath = Some data" and "parse data = None"
  shows "readLatticeState parse stringify True fs =
           (defaultState, fs(statePath \<mapsto> stringify defaultState)) \<and>
         api_state parse stringify True fs =
           (Json200 defaultState, fs(statePath \<mapsto> stringify defaultState)) \<and>
         readLatticeState parse stringify False fs = (JNull, fs) \<and>
         api_state parse stringify False fs = (Error500 ''Could not read state'', fs)"
  using assms
  by (simp add: readLatticeState_def api_state_def Let_def truthy_defaultState)

theorem readLatticeState_overwrites_malformed_witness:
  "api_state parse_literal stringify_default True (Map.empty(statePath \<mapsto> ''{phases: [0,'')) =
     (Json200 defaultState, Map.empty(statePath \<mapsto> ''<default state>'')) \<and>
   (Map.empty(statePath \<mapsto> ''<default state>'')) statePath \<noteq> Some ''{phases: [0,''"
proof -
  have 1: "(Map.empty(statePath \<mapsto> ''{phases: [0,'')) statePath = Some ''{phases: [0,''"
    by simp
  have 2: "parse_literal ''{phases: [0,'' = None"
    by (simp add: parse_literal_def)
  have 3: "stringify_default defaultState = ''<default state>''"
    by (simp add: stringify_default_def)
  from readLatticeState_overwrites_malformed
      [of "Map.empty(statePath \<mapsto> ''{phases: [0,'')" "''{phases: [0,''" parse_literal
          stringify_default] 1 2
  show ?thesis by (simp add: 3)
qed

end
